theory Spec2Isabelle
  imports Main "HOL-Library.Word"
begin

unbundle bit_operations_syntax

section \<open>sysctl.c: the key transcoder\<close>

text \<open>
  C strings are modelled as \<^typ>\<open>string\<close> (the bytes before the terminating NUL).
  A function that updates a buffer in place returns the buffer's new contents.
\<close>

text \<open>
  \<^verbatim>\<open>strpbrk(s, accept)\<close> returns a pointer to the first byte of \<open>s\<close> that occurs in
  \<open>accept\<close>, or NULL. The pointer is modelled by the split of \<open>s\<close> at that byte: the bytes
  before it, the byte itself and the bytes after it.
\<close>

fun strpbrk :: "string \<Rightarrow> string \<Rightarrow> (string \<times> char \<times> string) option" where
  "strpbrk [] accept = None"
| "strpbrk (c # s) accept =
     (if c \<in> set accept then Some ([], c, s)
      else (case strpbrk s accept of
              None \<Rightarrow> None
            | Some (pre, d, rest) \<Rightarrow> Some (c # pre, d, rest)))"

lemma strpbrk_Some_split: "strpbrk s accept = Some (pre, d, rest) \<Longrightarrow> s = pre @ d # rest"
  by (induction s arbitrary: pre) (auto split: if_splits option.splits)

lemma strpbrk_Some_length: "strpbrk s accept = Some (pre, d, rest) \<Longrightarrow> length rest < length s"
  by (drule strpbrk_Some_split) simp

text \<open>
  The \<^verbatim>\<open>while(p)\<close> loop of \<^verbatim>\<open>slashdot\<close>, entered with \<open>p\<close> at the delimiter \<open>c\<close> and
  \<open>rest\<close> the bytes after it. The byte is read once into \<open>c\<close>, so both tests look at the
  old byte; the second assignment wins when both fire.
\<close>

function slashdot_while :: "char \<Rightarrow> string \<Rightarrow> char \<Rightarrow> char \<Rightarrow> string" where
  "slashdot_while c rest old new =
     (let c1 = (if c = old then new else c);
          c2 = (if c = new then old else c1)
      in c2 # (case strpbrk rest ''/.'' of
                 None \<Rightarrow> rest
               | Some (pre, d, rest') \<Rightarrow> pre @ slashdot_while d rest' old new))"
  by pat_completeness auto
termination
  by (relation "measure (\<lambda>(c, rest, old, new). length rest)")
     (auto dest: strpbrk_Some_length)

declare slashdot_while.simps [simp del]

definition slashdot :: "string \<Rightarrow> char \<Rightarrow> char \<Rightarrow> string" where
  "slashdot p old new =
     (case strpbrk p ''/.'' of
        None \<Rightarrow> p
      | Some (pre, c, rest) \<Rightarrow>
          if c = new then p
          else pre @ slashdot_while c rest old new)"

section \<open>The environment: streams, messages and the file system\<close>

definition PROC_PATH :: string where
  "PROC_PATH = ''/proc/sys/''"

definition DEFAULT_PRELOAD :: string where
  "DEFAULT_PRELOAD = ''/etc/sysctl.conf''"

text \<open>
  \<^verbatim>\<open>errno.h\<close> is the C library's, not the repository's. The two codes the program names
  are given their Linux values; every theorem below uses only that they differ.
\<close>

definition ENOENT :: int where
  "ENOENT = 2"

definition EACCES :: int where
  "EACCES = 13"

text \<open>
  One constructor for each message template of the source, carrying the arguments of the
  \<^verbatim>\<open>fprintf(stderr, ...)\<close> call in the template's order; \<open>PERROR\<close> stands for
  \<^verbatim>\<open>perror(s)\<close> with the value of \<^verbatim>\<open>errno\<close> at the call.
\<close>

datatype message =
    ERR_UNKNOWN_PARAMETER string
  | ERR_MALFORMED_SETTING string
  | ERR_NO_EQUALS string
  | ERR_INVALID_KEY string
  | ERR_UNKNOWN_WRITING int string
  | ERR_UNKNOWN_READING int string
  | ERR_PERMISSION_DENIED string
  | ERR_OPENING_DIR string
  | ERR_PRELOAD_FILE string
  | WARN_BAD_LINE string int
  | PERROR string int

text \<open>The calls into the file system, in the order the program makes them.\<close>

datatype syscall =
    Fopen string string
  | Fwrite string string
  | Opendir string
  | Stat string

text \<open>
  What the file system answers. \<open>fopen path mode\<close> is \<open>Inl errno\<close> when the open fails and
  otherwise \<open>Inr bytes\<close>, the bytes the stream delivers to its reader before end of file
  or a read error (of no use in mode \<open>w\<close>). \<open>opendir path\<close> is the sequence of names that
  successive \<^verbatim>\<open>readdir\<close> calls return, in their order. \<open>stat path\<close> is \<open>Inl errno\<close> or
  \<open>Inr (S_ISDIR(st_mode))\<close>. The answers are those of one run: they do not change while
  the program runs.
\<close>

record filesys =
  fopen :: "string \<Rightarrow> string \<Rightarrow> int + string"
  opendir :: "string \<Rightarrow> string list option"
  stat :: "string \<Rightarrow> int + bool"

text \<open>
  The return codes are 0, \<open>-1\<close> and \<open>-2\<close>, whose bitwise or is the same in every width:
  they are modelled as \<^typ>\<open>int\<close>. The line counter of \<^verbatim>\<open>Preload\<close> is a 32-bit word.
\<close>

text \<open>
  What the program changes: its two global display flags, the bytes written to standard
  output, the messages written to standard error, and the log of its file system calls.
\<close>

record world =
  PrintName :: bool
  PrintNewline :: bool
  stdout :: string
  stderr :: "message list"
  trace :: "syscall list"

definition printf :: "string \<Rightarrow> world \<Rightarrow> world" where
  "printf text w = w\<lparr>stdout := stdout w @ text\<rparr>"

definition eprintf :: "message \<Rightarrow> world \<Rightarrow> world" where
  "eprintf m w = w\<lparr>stderr := stderr w @ [m]\<rparr>"

definition called :: "syscall \<Rightarrow> world \<Rightarrow> world" where
  "called c w = w\<lparr>trace := trace w @ [c]\<rparr>"

text \<open>
  \<^verbatim>\<open>fgets(buf, n, fp)\<close> stores at most \<open>n - 1\<close> bytes, stopping after a newline, and
  returns NULL when no byte is left. The result is the buffer and the rest of the stream.
  Both call sites pass an \<open>n\<close> of at least 2, so a returned buffer is never empty.
\<close>

fun fgets_chars :: "nat \<Rightarrow> string \<Rightarrow> string \<times> string" where
  "fgets_chars 0 s = ([], s)"
| "fgets_chars (Suc k) [] = ([], [])"
| "fgets_chars (Suc k) (c # s) =
     (if c = CHR 0x0A then ([c], s)
      else (case fgets_chars k s of (l, r) \<Rightarrow> (c # l, r)))"

definition fgets :: "nat \<Rightarrow> string \<Rightarrow> (string \<times> string) option" where
  "fgets n stream = (if stream = [] then None else Some (fgets_chars (n - 1) stream))"

text \<open>The C string held by a buffer: its bytes before the first NUL.\<close>

definition c_str :: "string \<Rightarrow> string" where
  "c_str buf = takeWhile (\<lambda>c. c \<noteq> CHR 0x00) buf"

lemma fgets_chars_length: "length (snd (fgets_chars k s)) \<le> length s"
  by (induction k s rule: fgets_chars.induct) (auto split: prod.splits)

lemma fgets_chars_shorter: "s \<noteq> [] \<Longrightarrow> length (snd (fgets_chars (Suc k) s)) < length s"
  using fgets_chars_length [of k "tl s"]
  by (cases s) (auto split: prod.splits)

lemma fgets_shorter:
  "fgets n stream = Some (buf, stream') \<Longrightarrow> 2 \<le> n \<Longrightarrow> length stream' < length stream"
  using fgets_chars_shorter [of stream "n - 2"]
  by (auto simp: fgets_def Suc_diff_Suc numeral_2_eq_2 split: if_splits)

text \<open>\<^verbatim>\<open>index(s, c)\<close>: the offset of the first \<open>c\<close> in \<open>s\<close>, or NULL.\<close>

fun index :: "string \<Rightarrow> char \<Rightarrow> nat option" where
  "index [] c = None"
| "index (x # s) c = (if x = c then Some 0 else map_option Suc (index s c))"

text \<open>
  \<^verbatim>\<open>strtok\<close>: skip the leading delimiters; NULL when nothing is left; otherwise the token
  runs to the next delimiter, which is overwritten with NUL, and the saved position is the
  byte after it (the end of the string when the token ran to the end). The result is the
  token and the string at the saved position.
\<close>

definition strtok :: "string \<Rightarrow> string \<Rightarrow> (string \<times> string) option" where
  "strtok s delim =
     (let s' = dropWhile (\<lambda>c. c \<in> set delim) s
      in if s' = [] then None
         else Some (takeWhile (\<lambda>c. c \<notin> set delim) s',
                    drop 1 (dropWhile (\<lambda>c. c \<notin> set delim) s')))"

section \<open>sysctl.c: Usage and the single-key accessors\<close>

definition Usage :: "string \<Rightarrow> world \<Rightarrow> int \<times> world" where
  "Usage name w =
     (- 1, printf (''usage:  '' @ name @ '' [-n] variable ... '' @ [CHR 0x0A] @
                   ''        '' @ name @ '' [-n] -w variable=value ... '' @ [CHR 0x0A] @
                   ''        '' @ name @ '' [-n] -a '' @ [CHR 0x0A] @
                   ''        '' @ name @ '' [-n] -p <file>   (default /etc/sysctl.conf) '' @ [CHR 0x0A] @
                   ''        '' @ name @ '' [-n] -A'' @ [CHR 0x0A]) w)"

text \<open>
  \<^verbatim>\<open>WriteSetting\<close>. The parameter is never NULL at a call site, so the NULL test of the
  source has no branch here. \<open>i\<close> is \<^verbatim>\<open>equals - name\<close>.
\<close>

definition WriteSetting :: "filesys \<Rightarrow> string \<Rightarrow> world \<Rightarrow> int \<times> world" where
  "WriteSetting fs setting w =
     (case index setting CHR ''='' of
        None \<Rightarrow> (- 1, eprintf (ERR_NO_EQUALS setting) w)
      | Some i \<Rightarrow>
          let val = drop (Suc i) setting in
          if setting = [] \<or> val = [] \<or> i = 0 then
            (- 2, eprintf (ERR_MALFORMED_SETTING setting) w)
          else
            let tmpname = PROC_PATH @ slashdot (take i setting) CHR ''.'' CHR ''/'';
                outname = slashdot (take i setting) CHR ''/'' CHR ''.'';
                w1 = called (Fopen tmpname ''w'') w
            in (case fopen fs tmpname ''w'' of
                  Inl errno \<Rightarrow>
                    (- 1,
                     if errno = ENOENT then eprintf (ERR_INVALID_KEY outname) w1
                     else if errno = EACCES then eprintf (ERR_PERMISSION_DENIED outname) w1
                     else eprintf (ERR_UNKNOWN_WRITING errno outname) w1)
                | Inr fp \<Rightarrow>
                    let w2 = called (Fwrite tmpname (val @ [CHR 0x0A])) w1
                    in (0,
                        if PrintName w2 then printf (outname @ '' = '' @ val @ [CHR 0x0A]) w2
                        else if PrintNewline w2 then printf (val @ [CHR 0x0A]) w2
                        else printf val w2)))"

text \<open>
  The \<^verbatim>\<open>while(fgets(inbuf, 1024, fp))\<close> loop of \<^verbatim>\<open>ReadSetting\<close>. With the newline flag
  off, the first newline of the buffer is overwritten with NUL before the buffer is printed.
\<close>

function ReadSetting_while :: "string \<Rightarrow> string \<Rightarrow> world \<Rightarrow> world" where
  "ReadSetting_while outname fp w =
     (case fgets 1024 fp of
        None \<Rightarrow> w
      | Some (buf, fp') \<Rightarrow>
          let inbuf = c_str buf in
          if PrintName w then
            ReadSetting_while outname fp' (printf (outname @ '' = '' @ inbuf) w)
          else if \<not> PrintNewline w then
            ReadSetting_while outname fp' (printf (takeWhile (\<lambda>c. c \<noteq> CHR 0x0A) inbuf) w)
          else
            ReadSetting_while outname fp' (printf inbuf w))"
  by pat_completeness auto
termination
  by (relation "measure (\<lambda>(outname, fp, w). length fp)")
     (auto dest: fgets_shorter)

declare ReadSetting_while.simps [simp del]

text \<open>
  \<^verbatim>\<open>ReadSetting\<close>. An empty setting is reported and then processed like any other: the
  source has no return after that message.
\<close>

definition ReadSetting :: "filesys \<Rightarrow> string \<Rightarrow> world \<Rightarrow> int \<times> world" where
  "ReadSetting fs setting w =
     (let w0 = (if setting = [] then eprintf (ERR_INVALID_KEY setting) w else w);
          tmpname = PROC_PATH @ slashdot setting CHR ''.'' CHR ''/'';
          outname = slashdot setting CHR ''/'' CHR ''.'';
          w1 = called (Fopen tmpname ''r'') w0
      in (case fopen fs tmpname ''r'' of
            Inl errno \<Rightarrow>
              (- 1,
               if errno = ENOENT then eprintf (ERR_INVALID_KEY outname) w1
               else if errno = EACCES then eprintf (ERR_PERMISSION_DENIED outname) w1
               else eprintf (ERR_UNKNOWN_READING errno outname) w1)
          | Inr fp \<Rightarrow> (0, ReadSetting_while outname fp w1)))"

section \<open>sysctl.c: the preload processor\<close>

text \<open>
  \<^verbatim>\<open>StripLeadingAndTrailingSpaces\<close> overwrites trailing blanks, tabs, newlines and
  carriage returns with NUL, never the first byte of the buffer, and returns a pointer past
  the leading blanks and tabs. The result is the buffer as it is left and the returned
  string.
\<close>

definition StripLeadingAndTrailingSpaces :: "string \<Rightarrow> string \<times> string" where
  "StripLeadingAndTrailingSpaces oneline =
     (case oneline of
        [] \<Rightarrow> ([], [])
      | c # cs \<Rightarrow>
          let buf = c # rev (dropWhile (\<lambda>x. x = CHR '' '' \<or> x = CHR 0x09 \<or> x = CHR 0x0A \<or> x = CHR 0x0D)
                                       (rev cs))
          in (buf, dropWhile (\<lambda>x. x = CHR '' '' \<or> x = CHR 0x09) buf))"

text \<open>
  The body of the \<^verbatim>\<open>while(fgets(oneline, 256, fp))\<close> loop of \<^verbatim>\<open>Preload\<close> after \<open>n++\<close>:
  \<open>n\<close> is the value of the counter, already incremented, as \<^verbatim>\<open>%d\<close> prints it. The value returned by the second call of
  \<^verbatim>\<open>StripLeadingAndTrailingSpaces\<close> is dropped by the source, so only its effect on the
  buffer reaches \<open>name\<close>. The return code of \<^verbatim>\<open>WriteSetting\<close> is dropped as well.
\<close>

definition Preload_line :: "filesys \<Rightarrow> string \<Rightarrow> int \<Rightarrow> string \<Rightarrow> world \<Rightarrow> world" where
  "Preload_line fs filename n oneline w =
     (let t = snd (StripLeadingAndTrailingSpaces oneline) in
      if length t < 2 then w
      else if hd t = CHR ''#'' \<or> hd t = CHR '';'' then w
      else
        (case strtok t ''='' of
           None \<Rightarrow> eprintf (WARN_BAD_LINE filename n) w
         | Some (tok, saved) \<Rightarrow>
             if tok = [] then eprintf (WARN_BAD_LINE filename n) w
             else
               let name = fst (StripLeadingAndTrailingSpaces tok) in
               (case strtok saved [CHR 0x0A, CHR 0x0D] of
                  None \<Rightarrow> eprintf (WARN_BAD_LINE filename n) w
                | Some (tok', _) \<Rightarrow>
                    if tok' = [] then eprintf (WARN_BAD_LINE filename n) w
                    else
                      let val = dropWhile (\<lambda>x. x = CHR '' '' \<or> x = CHR 0x09) tok'
                      in snd (WriteSetting fs (name @ ''='' @ val) w))))"

text \<open>
  The loop of \<^verbatim>\<open>Preload\<close>. The counter \<^verbatim>\<open>int n\<close> is a 32-bit word read as a signed
  number: \<open>n++\<close> at \<open>2^31 - 1\<close> (undefined in C) wraps to \<open>-2^31\<close>, as the compiled program
  does.
\<close>

function Preload_while :: "filesys \<Rightarrow> string \<Rightarrow> string \<Rightarrow> 32 word \<Rightarrow> world \<Rightarrow> world" where
  "Preload_while fs filename fp n w =
     (case fgets 256 fp of
        None \<Rightarrow> w
      | Some (buf, fp') \<Rightarrow>
          Preload_while fs filename fp' (n + 1)
            (Preload_line fs filename (sint (n + 1)) (c_str buf) w))"
  by pat_completeness auto
termination
  by (relation "measure (\<lambda>(fs, filename, fp, n, w). length fp)")
     (auto dest: fgets_shorter)

declare Preload_while.simps [simp del]

text \<open>\<^verbatim>\<open>Preload\<close>. The file name is never NULL at the call site.\<close>

definition Preload :: "filesys \<Rightarrow> string \<Rightarrow> world \<Rightarrow> world" where
  "Preload fs filename w =
     (let w1 = called (Fopen filename ''r'') w
      in (case fopen fs filename ''r'' of
            Inl errno \<Rightarrow> eprintf (ERR_PRELOAD_FILE filename) w1
          | Inr fp \<Rightarrow> Preload_while fs filename fp 0 w1))"

section \<open>sysctl.c: the recursive enumerator\<close>

text \<open>
  \<^verbatim>\<open>DisplayAll\<close> recurses as deep as the file system answers with directories, which
  nothing bounds, so the recursion carries fuel: \<open>None\<close> means the fuel ran out.
  \<open>DisplayAll_while\<close> is the \<^verbatim>\<open>while((de = readdir(dp)))\<close> loop over the names not yet
  read, with the \<open>rc\<close> accumulated so far. The two \<^verbatim>\<open>readdir\<close> calls before the loop
  drop the first two names, whatever they are. The value of the recursive call is dropped
  by the source.
\<close>

fun DisplayAll :: "nat \<Rightarrow> filesys \<Rightarrow> string \<Rightarrow> bool \<Rightarrow> world \<Rightarrow> (int \<times> world) option"
  and DisplayAll_while ::
    "nat \<Rightarrow> filesys \<Rightarrow> string \<Rightarrow> bool \<Rightarrow> string list \<Rightarrow> int \<Rightarrow> world \<Rightarrow> (int \<times> world) option"
where
  "DisplayAll 0 fs path ShowTableUtil w = None"
| "DisplayAll (Suc fuel) fs path ShowTableUtil w =
     (let w1 = called (Opendir path) w
      in (case opendir fs path of
            None \<Rightarrow> Some (- 1, eprintf (ERR_OPENING_DIR path) w1)
          | Some dp \<Rightarrow> DisplayAll_while fuel fs path ShowTableUtil (drop 2 dp) 0 w1))"
| "DisplayAll_while fuel fs path ShowTableUtil [] rc w = Some (rc, w)"
| "DisplayAll_while fuel fs path ShowTableUtil (d_name # dp) rc w =
     (let tmpdir = path @ d_name;
          w1 = called (Stat tmpdir) w
      in (case stat fs tmpdir of
            Inl errno \<Rightarrow>
              DisplayAll_while fuel fs path ShowTableUtil dp rc (eprintf (PERROR tmpdir errno) w1)
          | Inr isdir \<Rightarrow>
              if isdir then
                (case DisplayAll fuel fs (tmpdir @ ''/'') ShowTableUtil w1 of
                   None \<Rightarrow> None
                 | Some (_, w2) \<Rightarrow> DisplayAll_while fuel fs path ShowTableUtil dp rc w2)
              else
                (case ReadSetting fs (drop (length PROC_PATH) tmpdir) w1 of
                   (rc2, w2) \<Rightarrow> DisplayAll_while fuel fs path ShowTableUtil dp (rc OR rc2) w2)))"

section \<open>sysctl.c: main\<close>

text \<open>The C library's \<^verbatim>\<open>basename\<close>: the bytes after the last slash.\<close>

definition basename :: "string \<Rightarrow> string" where
  "basename p = rev (takeWhile (\<lambda>c. c \<noteq> CHR ''/'') (rev p))"

text \<open>
  The \<^verbatim>\<open>for\<close> loop of \<^verbatim>\<open>main\<close> over the arguments not yet read. The end of the vector
  and an empty argument both end the loop. \<open>sw\<close> is \<^verbatim>\<open>(*argv)[1]\<close>, the NUL terminator
  when the argument is a lone dash.
\<close>

fun main_for ::
  "nat \<Rightarrow> filesys \<Rightarrow> string \<Rightarrow> string list \<Rightarrow> bool \<Rightarrow> bool \<Rightarrow> int \<Rightarrow> world \<Rightarrow> (int \<times> world) option"
where
  "main_for fuel fs me [] SwitchesAllowed WriteMode ReturnCode w = Some (ReturnCode, w)"
| "main_for fuel fs me (arg # argv) SwitchesAllowed WriteMode ReturnCode w =
     (if arg = [] then Some (ReturnCode, w)
      else if SwitchesAllowed \<and> hd arg = CHR ''-'' then
        (let sw = (case tl arg of [] \<Rightarrow> CHR 0x00 | c # _ \<Rightarrow> c) in
         if sw = CHR ''b'' then
           main_for fuel fs me argv SwitchesAllowed WriteMode ReturnCode
             (w\<lparr>PrintNewline := False, PrintName := False\<rparr>)
         else if sw = CHR ''n'' then
           main_for fuel fs me argv SwitchesAllowed WriteMode ReturnCode
             (w\<lparr>PrintName := False\<rparr>)
         else if sw = CHR ''w'' then
           main_for fuel fs me argv False True ReturnCode w
         else if sw = CHR ''p'' then
           (let preloadfile =
                  (case argv of
                     [] \<Rightarrow> DEFAULT_PRELOAD
                   | f # _ \<Rightarrow> if f \<noteq> [] then f else DEFAULT_PRELOAD)
            in Some (0, Preload fs preloadfile w))
         else if sw = CHR ''a'' \<or> sw = CHR ''A'' \<or> sw = CHR ''X'' then
           DisplayAll fuel fs PROC_PATH (sw \<noteq> CHR ''a'') w
         else if sw = CHR ''h'' \<or> sw = CHR ''?'' then
           Some (Usage me w)
         else
           Some (Usage me (eprintf (ERR_UNKNOWN_PARAMETER arg) w)))
      else if WriteMode then
        (case WriteSetting fs arg w of
           (rc, w') \<Rightarrow> main_for fuel fs me argv False WriteMode rc w')
      else
        (case ReadSetting fs arg w of
           (_, w') \<Rightarrow> main_for fuel fs me argv False WriteMode ReturnCode w'))"

text \<open>
  \<^verbatim>\<open>main\<close>: \<open>argv\<close> is the whole vector, \<open>argv[0]\<close> included, and \<open>argc\<close> its length.
\<close>

definition main :: "nat \<Rightarrow> filesys \<Rightarrow> string list \<Rightarrow> world \<Rightarrow> (int \<times> world) option" where
  "main fuel fs argv w0 =
     (let me = basename (case argv of [] \<Rightarrow> [] | a # _ \<Rightarrow> a);
          w = w0\<lparr>PrintName := True, PrintNewline := True\<rparr>
      in if length argv < 2 then Some (Usage me w)
         else main_for fuel fs me (tl argv) True False 0 w)"

section \<open>Vocabulary of the statements\<close>

text \<open>Vocabulary for stating what the transform does: the two delimiters and their swap.\<close>

definition is_delim :: "char \<Rightarrow> bool" where
  "is_delim c = (c = CHR ''/'' \<or> c = CHR ''.'')"

definition swap_delim :: "char \<Rightarrow> char" where
  "swap_delim c = (if c = CHR ''.'' then CHR ''/'' else if c = CHR ''/'' then CHR ''.'' else c)"

text \<open>
  The two character classes of \<^verbatim>\<open>StripLeadingAndTrailingSpaces\<close>: the blanks it skips at
  the front, and the white space it removes at the end.
\<close>

definition blank :: "char \<Rightarrow> bool" where
  "blank c = (c = CHR '' '' \<or> c = CHR 0x09)"

definition white :: "char \<Rightarrow> bool" where
  "white c = (c = CHR '' '' \<or> c = CHR 0x09 \<or> c = CHR 0x0A \<or> c = CHR 0x0D)"

text \<open>The calls of the log that are metadata queries.\<close>

fun is_Stat :: "syscall \<Rightarrow> bool" where
  "is_Stat (Stat path) = True"
| "is_Stat c = False"

section \<open>Example runs\<close>

text \<open>The world at program start: nothing printed, no call made.\<close>

definition w_init :: world where
  "w_init = \<lparr>PrintName = True, PrintNewline = True, stdout = [], stderr = [], trace = []\<rparr>"

text \<open>
  A file system with the one-line parameter \<open>one\<close> and the two-line parameter \<open>two\<close>.
\<close>

definition fs_values :: filesys where
  "fs_values =
     \<lparr>fopen = (\<lambda>path mode.
         if path = ''/proc/sys/one'' then Inr (''1'' @ [CHR 0x0A])
         else if path = ''/proc/sys/two'' then Inr (''a'' @ [CHR 0x0A] @ ''b'' @ [CHR 0x0A])
         else Inl ENOENT),
      opendir = (\<lambda>path. None),
      stat = (\<lambda>path. Inl ENOENT)\<rparr>"

text \<open>
  A file system whose preload file has four lines: a comment, an empty line, a setting
  and a line with no \<open>=\<close>.
\<close>

definition fs_conf :: filesys where
  "fs_conf =
     \<lparr>fopen = (\<lambda>path mode.
         if path = ''/etc/sysctl.conf''
           then Inr (''# comment'' @ [CHR 0x0A] @ [CHR 0x0A] @ ''foo.bar = 42'' @ [CHR 0x0A]
                     @ ''badline'' @ [CHR 0x0A])
         else if path = ''/proc/sys/foo/bar'' then Inr []
         else Inl ENOENT),
      opendir = (\<lambda>path. None),
      stat = (\<lambda>path. Inl ENOENT)\<rparr>"

text \<open>
  A file system whose preload file has the one line \<open>=a=b\<close>, and where the parameter
  \<open>a\<close> can be written.
\<close>

definition fs_leading_equals :: filesys where
  "fs_leading_equals =
     \<lparr>fopen = (\<lambda>path mode.
         if path = ''/etc/sysctl.conf'' then Inr (''=a=b'' @ [CHR 0x0A])
         else if path = ''/proc/sys/a'' then Inr []
         else Inl ENOENT),
      opendir = (\<lambda>path. None),
      stat = (\<lambda>path. Inl ENOENT)\<rparr>"

text \<open>
  A root with the subdirectory \<open>net\<close>, which holds the unreadable \<open>f\<close> and the
  readable \<open>g\<close>, and the readable file \<open>one\<close>.
\<close>

definition fs_tree :: filesys where
  "fs_tree =
     \<lparr>fopen = (\<lambda>path mode.
         if path = ''/proc/sys/one'' then Inr (''1'' @ [CHR 0x0A])
         else if path = ''/proc/sys/net/g'' then Inr (''2'' @ [CHR 0x0A])
         else if path = ''/proc/sys/net/f'' then Inl EACCES
         else Inl ENOENT),
      opendir = (\<lambda>path.
         if path = ''/proc/sys/'' then Some [''.'', ''..'', ''net'', ''one'']
         else if path = ''/proc/sys/net/'' then Some [''.'', ''..'', ''f'', ''g'']
         else None),
      stat = (\<lambda>path.
         if path = ''/proc/sys/net'' then Inr True
         else if path = ''/proc/sys/one'' \<or> path = ''/proc/sys/net/f'' \<or> path = ''/proc/sys/net/g''
           then Inr False
         else Inl ENOENT)\<rparr>"

text \<open>A file system on which every call fails with the error code \<open>e\<close>.\<close>

definition fs_failing :: "int \<Rightarrow> filesys" where
  "fs_failing e = \<lparr>fopen = (\<lambda>path mode. Inl e), opendir = (\<lambda>path. None), stat = (\<lambda>path. Inl e)\<rparr>"

section \<open>Facts about the library functions\<close>

lemma strpbrk_delims_None: "(strpbrk s ''/.'' = None) = (find is_delim s = None)"
  by (induction s) (auto simp: is_delim_def split: option.splits)

lemma strpbrk_delims_Some:
  "strpbrk s ''/.'' = Some (pre, d, rest) \<Longrightarrow>
     find is_delim s = Some d \<and> is_delim d \<and> map swap_delim pre = pre"
proof (induction s arbitrary: pre)
  case Nil
  then show ?case by simp
next
  case (Cons c s)
  show ?case
  proof (cases "is_delim c")
    case True
    with Cons.prems show ?thesis by (auto simp: is_delim_def)
  next
    case False
    with Cons.prems obtain pre' where p: "strpbrk s ''/.'' = Some (pre', d, rest)"
      and q: "pre = c # pre'"
      by (auto simp: is_delim_def split: option.splits)
    from Cons.IH [OF p] False q show ?thesis
      by (auto simp: is_delim_def swap_delim_def)
  qed
qed

lemma map_swap_no_delim: "find is_delim s = None \<Longrightarrow> map swap_delim s = s"
  by (induction s) (auto simp: is_delim_def swap_delim_def split: if_splits)

lemma swap_delim_involution: "map swap_delim (map swap_delim s) = s"
  by (induction s) (auto simp: swap_delim_def)

lemma find_delim_swapped:
  "find is_delim (map swap_delim s) = map_option swap_delim (find is_delim s)"
  by (induction s) (auto simp: is_delim_def swap_delim_def)

lemma find_delim_dotted:
  "CHR ''.'' \<in> set s \<Longrightarrow> CHR ''/'' \<notin> set s \<Longrightarrow> find is_delim s = Some CHR ''.''"
  by (induction s) (auto simp: is_delim_def)

lemma index_None: "(index s c = None) = (c \<notin> set s)"
  by (induction s) auto

lemma index_first: "c \<notin> set k \<Longrightarrow> index (k @ c # v) c = Some (length k)"
  by (induction k) auto

lemma eprintf_fields [simp]:
  "stdout (eprintf m w) = stdout w"
  "trace (eprintf m w) = trace w"
  "stderr (eprintf m w) = stderr w @ [m]"
  "PrintName (eprintf m w) = PrintName w"
  "PrintNewline (eprintf m w) = PrintNewline w"
  by (simp_all add: eprintf_def)

lemma called_fields [simp]:
  "stdout (called c w) = stdout w"
  "trace (called c w) = trace w @ [c]"
  "stderr (called c w) = stderr w"
  "PrintName (called c w) = PrintName w"
  "PrintNewline (called c w) = PrintNewline w"
  by (simp_all add: called_def)

lemma printf_fields [simp]:
  "stdout (printf s w) = stdout w @ s"
  "trace (printf s w) = trace w"
  "stderr (printf s w) = stderr w"
  "PrintName (printf s w) = PrintName w"
  "PrintNewline (printf s w) = PrintNewline w"
  by (simp_all add: printf_def)

lemma fgets_chars_split: "fgets_chars k s = (l, r) \<Longrightarrow> s = l @ r"
  by (induction k s arbitrary: l r rule: fgets_chars.induct) (auto split: if_splits prod.splits)

lemma fgets_chars_newline_last:
  "fgets_chars k s = (l, r) \<Longrightarrow> takeWhile (\<lambda>c. c \<noteq> CHR 0x0A) l = filter (\<lambda>c. c \<noteq> CHR 0x0A) l"
  by (induction k s arbitrary: l r rule: fgets_chars.induct) (auto split: if_splits prod.splits)

lemma fgets_chars_line:
  "CHR 0x0A \<notin> set l \<Longrightarrow> length l < k \<Longrightarrow> fgets_chars k (l @ CHR 0x0A # rest) = (l @ [CHR 0x0A], rest)"
proof (induction l arbitrary: k)
  case Nil
  then show ?case by (cases k) auto
next
  case (Cons a l)
  then show ?case by (cases k) auto
qed

lemma c_str_clean: "CHR 0x00 \<notin> set buf \<Longrightarrow> c_str buf = buf"
  by (auto simp: c_str_def takeWhile_eq_all_conv)

lemma printf_printf: "printf b (printf a w) = printf (a @ b) w"
  by (simp add: printf_def)

lemma printf_Nil: "printf [] w = w"
  by (simp add: printf_def)

lemma w_init_fields [simp]:
  "stdout w_init = []"
  "trace w_init = []"
  "stderr w_init = []"
  "PrintName w_init"
  "PrintNewline w_init"
  by (simp_all add: w_init_def)

lemma fs_failing_fields [simp]:
  "fopen (fs_failing e) path mode = Inl e"
  "opendir (fs_failing e) path = None"
  "stat (fs_failing e) path = Inl e"
  by (simp_all add: fs_failing_def)

lemma blank_white: "blank c \<Longrightarrow> white c"
  by (auto simp: blank_def white_def)

lemma Strip_alt:
  "StripLeadingAndTrailingSpaces s =
     (case s of [] \<Rightarrow> ([], [])
      | c # cs \<Rightarrow> (c # rev (dropWhile white (rev cs)), dropWhile blank (c # rev (dropWhile white (rev cs)))))"
proof -
  have w: "(\<lambda>x. x = CHR '' '' \<or> x = CHR 0x09 \<or> x = CHR 0x0A \<or> x = CHR 0x0D) = white"
    by (auto simp: white_def)
  have b: "(\<lambda>x. x = CHR '' '' \<or> x = CHR 0x09) = blank"
    by (auto simp: blank_def)
  show ?thesis
    by (simp add: StripLeadingAndTrailingSpaces_def w b Let_def split: list.splits)
qed

lemma Strip_shape:
  assumes "\<not> white c"
  shows "fst (StripLeadingAndTrailingSpaces (a @ c # b)) = a @ c # rev (dropWhile white (rev b))"
proof (cases a)
  case Nil
  then show ?thesis by (simp add: Strip_alt)
next
  case (Cons x a')
  have "dropWhile white (rev b @ c # rev a') = dropWhile white (rev b) @ c # rev a'"
    using assms by (rule dropWhile_append3)
  with Cons show ?thesis by (simp add: Strip_alt)
qed

lemma Strip_snd: "snd (StripLeadingAndTrailingSpaces s) = dropWhile blank (fst (StripLeadingAndTrailingSpaces s))"
  by (simp add: Strip_alt split: list.splits)

lemma Strip_trailing:
  assumes "\<not> white c" and "\<forall>x\<in>set b. white x"
  shows "fst (StripLeadingAndTrailingSpaces (a @ c # b)) = a @ [c]"
  using assms by (simp add: Strip_shape)

lemma Strip_line:
  assumes lead: "\<forall>x\<in>set lead. blank x" and trail: "\<forall>x\<in>set trail. white x"
    and t: "t \<noteq> []" "\<not> blank (hd t)" "\<not> white (last t)"
  shows "snd (StripLeadingAndTrailingSpaces (lead @ t @ trail @ [CHR 0x0A])) = t"
proof -
  from t(1) obtain t0 c where tc: "t = t0 @ [c]" by (metis rev_exhaust)
  with t(3) have c: "\<not> white c" by simp
  have tr: "\<forall>x\<in>set (trail @ [CHR 0x0A]). white x" using trail by (simp add: white_def)
  have "fst (StripLeadingAndTrailingSpaces ((lead @ t0) @ c # (trail @ [CHR 0x0A]))) = (lead @ t0) @ [c]"
    using c tr by (rule Strip_trailing)
  then have f: "fst (StripLeadingAndTrailingSpaces (lead @ t @ trail @ [CHR 0x0A])) = lead @ t"
    by (simp add: tc)
  have "dropWhile blank (lead @ t) = dropWhile blank t"
    using lead by (simp add: dropWhile_append2)
  also have "\<dots> = t" using t(1,2) by (cases t) simp_all
  finally show ?thesis by (simp add: Strip_snd f)
qed

lemma Strip_white:
  assumes "\<forall>x\<in>set s. white x"
  shows "length (snd (StripLeadingAndTrailingSpaces s)) < 2"
proof (cases s)
  case Nil
  then show ?thesis by (simp add: Strip_alt)
next
  case (Cons c cs)
  with assms have "dropWhile white (rev cs) = []" by simp
  with Cons have "fst (StripLeadingAndTrailingSpaces s) = [c]" by (simp add: Strip_alt)
  then show ?thesis by (simp add: Strip_snd)
qed

lemma Strip_comment:
  assumes lead: "\<forall>x\<in>set lead. blank x" and c: "c = CHR ''#'' \<or> c = CHR '';''"
  shows "\<exists>r. snd (StripLeadingAndTrailingSpaces (lead @ c # rest)) = c # r"
proof -
  from c have nw: "\<not> white c" and nb: "\<not> blank c" by (auto simp: white_def blank_def)
  have "fst (StripLeadingAndTrailingSpaces (lead @ c # rest)) = lead @ c # rev (dropWhile white (rev rest))"
    using nw by (rule Strip_shape)
  moreover have "dropWhile blank (lead @ c # rev (dropWhile white (rev rest))) = c # rev (dropWhile white (rev rest))"
    using lead nb by (simp add: dropWhile_append2)
  ultimately show ?thesis by (simp add: Strip_snd)
qed

lemma takeWhile_until: "c \<notin> set xs \<Longrightarrow> takeWhile (\<lambda>x. x \<noteq> c) (xs @ c # ys) = xs"
  by (induction xs) auto

lemma dropWhile_until: "c \<notin> set xs \<Longrightarrow> dropWhile (\<lambda>x. x \<noteq> c) (xs @ c # ys) = c # ys"
  by (induction xs) auto

lemma takeWhile_absent: "c \<notin> set xs \<Longrightarrow> takeWhile (\<lambda>x. x \<noteq> c) xs = xs"
  by (induction xs) auto

lemma dropWhile_absent: "c \<notin> set xs \<Longrightarrow> dropWhile (\<lambda>x. x \<noteq> c) xs = []"
  by (induction xs) auto

lemma strtok_eq_alt:
  "strtok s ''='' =
     (let s' = dropWhile (\<lambda>c. c = CHR ''='') s
      in if s' = [] then None
         else Some (takeWhile (\<lambda>c. c \<noteq> CHR ''='') s',
                    drop 1 (dropWhile (\<lambda>c. c \<noteq> CHR ''='') s')))"
proof -
  have P: "(\<lambda>c. c \<in> set ''='') = (\<lambda>c. c = CHR ''='')"
          "(\<lambda>c. c \<notin> set ''='') = (\<lambda>c. c \<noteq> CHR ''='')"
    by auto
  show ?thesis
    unfolding strtok_def P ..
qed

lemma strtok_no_value:
  assumes "CHR ''='' \<notin> set body" and "e1 = [] \<or> e1 = ''=''" and "e2 = [] \<or> e2 = ''=''"
  shows "strtok (e1 @ body @ e2) ''='' = (if body = [] then None else Some (body, []))"
proof -
  have d1: "dropWhile (\<lambda>c. c = CHR ''='') (e1 @ body @ e2) = dropWhile (\<lambda>c. c = CHR ''='') (body @ e2)"
    using assms(2) by auto
  show ?thesis
  proof (cases body)
    case Nil
    have "dropWhile (\<lambda>c. c = CHR ''='') e2 = []"
      using assms(3) by auto
    with d1 Nil show ?thesis
      by (simp add: strtok_eq_alt)
  next
    case (Cons b bs)
    with assms(1) have hb: "b \<noteq> CHR ''=''" by auto
    have tw: "takeWhile (\<lambda>c. c \<noteq> CHR ''='') (body @ e2) = body"
    proof (cases "e2 = []")
      case True
      then show ?thesis by (simp add: takeWhile_absent [OF assms(1)])
    next
      case False
      with assms(3) have "e2 = ''=''" by simp
      then show ?thesis by (simp add: takeWhile_until [OF assms(1)])
    qed
    have dw: "drop 1 (dropWhile (\<lambda>c. c \<noteq> CHR ''='') (body @ e2)) = []"
    proof (cases "e2 = []")
      case True
      then show ?thesis by (simp add: dropWhile_absent [OF assms(1)])
    next
      case False
      with assms(3) have "e2 = ''=''" by simp
      then show ?thesis by (simp add: dropWhile_until [OF assms(1)])
    qed
    have s': "dropWhile (\<lambda>c. c = CHR ''='') (e1 @ body @ e2) = body @ e2"
      using d1 Cons hb by simp
    have ne: "body @ e2 \<noteq> []" "body \<noteq> []" using Cons by simp_all
    show ?thesis
      unfolding strtok_eq_alt Let_def s' tw dw using ne by simp
  qed
qed

lemma strtok_name:
  assumes "CHR ''='' \<notin> set tok" and "tok \<noteq> []"
  shows "strtok (tok @ ''='' @ rest) ''='' = Some (tok, rest)"
proof -
  from assms obtain b bs where tk: "tok = b # bs" and hb: "b \<noteq> CHR ''=''" by (cases tok) auto
  have tw: "takeWhile (\<lambda>c. c \<noteq> CHR ''='') (tok @ ''='' @ rest) = tok"
    using takeWhile_until [OF assms(1), of rest] by simp
  have dw: "dropWhile (\<lambda>c. c \<noteq> CHR ''='') (tok @ ''='' @ rest) = ''='' @ rest"
    using dropWhile_until [OF assms(1), of rest] by simp
  have s': "dropWhile (\<lambda>c. c = CHR ''='') (tok @ ''='' @ rest) = tok @ ''='' @ rest"
    using tk hb by simp
  show ?thesis
    unfolding strtok_eq_alt Let_def s' tw dw using assms(2) by simp
qed

lemma blank_not_eol: "blank x \<Longrightarrow> x \<noteq> CHR 0x0A \<and> x \<noteq> CHR 0x0D"
  by (auto simp: blank_def)

lemma strtok_whole:
  assumes "s \<noteq> []" and "\<forall>x\<in>set s. x \<notin> set delim"
  shows "strtok s delim = Some (s, [])"
proof -
  from assms(1) obtain y ys where c: "s = y # ys"
    by (cases s) auto
  have d: "dropWhile (\<lambda>c. c \<in> set delim) s = s"
    using assms(2) by (simp add: c)
  have tw: "takeWhile (\<lambda>c. c \<notin> set delim) s = s"
    using assms(2) by (simp add: takeWhile_eq_all_conv)
  have dw: "dropWhile (\<lambda>c. c \<notin> set delim) s = []"
    using assms(2) by simp
  show ?thesis
    by (simp add: strtok_def Let_def d tw dw assms(1))
qed

lemma strtok_value:
  assumes "\<forall>x\<in>set mid. blank x" and "val \<noteq> []" and "CHR 0x0A \<notin> set val" and "CHR 0x0D \<notin> set val"
  shows "strtok (mid @ val) [CHR 0x0A, CHR 0x0D] = Some (mid @ val, [])"
proof (rule strtok_whole)
  show "mid @ val \<noteq> []"
    using assms(2) by simp
  have "x \<noteq> CHR 0x0A \<and> x \<noteq> CHR 0x0D" if "x \<in> set mid" for x
  proof -
    from assms(1) that have "blank x" by blast
    then show ?thesis by (rule blank_not_eol)
  qed
  moreover have "x \<noteq> CHR 0x0A \<and> x \<noteq> CHR 0x0D" if "x \<in> set val" for x
    using assms(3,4) that by blast
  ultimately have "x \<noteq> CHR 0x0A \<and> x \<noteq> CHR 0x0D" if "x \<in> set (mid @ val)" for x
    using that by (simp only: set_append Un_iff) blast
  then show "\<forall>x\<in>set (mid @ val). x \<notin> set [CHR 0x0A, CHR 0x0D]"
    by simp
qed

section \<open>The key transcoder\<close>

text \<open>
  Once the loop of \<^verbatim>\<open>slashdot\<close> is entered at a delimiter, every delimiter from there to
  the end of the string is exchanged for the other one.
\<close>

lemma slashdot_while_swap:
  "is_delim c \<Longrightarrow> is_delim old \<Longrightarrow> is_delim new \<Longrightarrow> old \<noteq> new \<Longrightarrow>
     slashdot_while c rest old new = map swap_delim (c # rest)"
proof (induction c rest old new rule: slashdot_while.induct)
  case (1 c rest old new)
  have hd: "(if c = new then old else if c = old then new else c) = swap_delim c"
    using "1.prems" by (auto simp: is_delim_def swap_delim_def)
  show ?case
  proof (cases "strpbrk rest ''/.''")
    case None
    then have "map swap_delim rest = rest"
      by (simp add: strpbrk_delims_None map_swap_no_delim)
    with None hd show ?thesis
      by (subst slashdot_while.simps) (simp add: Let_def)
  next
    case (Some t)
    then obtain pre d rest' where t: "strpbrk rest ''/.'' = Some (pre, d, rest')"
      by (cases t) auto
    from strpbrk_delims_Some [OF t] have d: "is_delim d" and pre: "map swap_delim pre = pre"
      by auto
    have split: "rest = pre @ d # rest'"
      by (rule strpbrk_Some_split [OF t])
    have "slashdot_while d rest' old new = map swap_delim (d # rest')"
      using "1.IH" [OF refl refl t refl refl d "1.prems"(2,3,4)] .
    with t hd pre split show ?thesis
      by (subst slashdot_while.simps) (simp add: Let_def)
  qed
qed

lemma slashdot_char:
  assumes "is_delim old" "is_delim new" "old \<noteq> new"
  shows "slashdot p old new =
     (case find is_delim p of
        None \<Rightarrow> p
      | Some c \<Rightarrow> if c = old then map swap_delim p else p)"
proof (cases "strpbrk p ''/.''")
  case None
  moreover from None have "find is_delim p = None"
    by (simp add: strpbrk_delims_None)
  ultimately show ?thesis
    by (simp add: slashdot_def)
next
  case (Some t)
  then obtain pre d rest where t: "strpbrk p ''/.'' = Some (pre, d, rest)"
    by (cases t) auto
  from strpbrk_delims_Some [OF t] have f: "find is_delim p = Some d" and d: "is_delim d"
    and pre: "map swap_delim pre = pre"
    by auto
  have split: "p = pre @ d # rest"
    by (rule strpbrk_Some_split [OF t])
  from d assms have dn: "d \<noteq> new \<longleftrightarrow> d = old"
    by (auto simp: is_delim_def)
  show ?thesis
  proof (cases "d = new")
    case True
    with t f dn show ?thesis
      by (simp add: slashdot_def)
  next
    case False
    with dn have "d = old"
      by simp
    have "slashdot_while d rest old new = map swap_delim (d # rest)"
      by (rule slashdot_while_swap [OF d assms])
    with t f False \<open>d = old\<close> pre split show ?thesis
      by (simp add: slashdot_def)
  qed
qed

text \<open>
  C3, as the code has it. \<^verbatim>\<open>slashdot\<close> looks at the first delimiter of the string. When
  it is the character to be replaced, every \<open>.\<close> of the whole string becomes \<open>/\<close> and
  every \<open>/\<close> becomes \<open>.\<close>. When it is already the wanted character, or when the string
  has no delimiter, the string is returned as it is. So the key \<open>net.ipv4.ip_forward\<close>
  becomes the path \<open>net/ipv4/ip_forward\<close>.
\<close>

theorem slashdot_swaps_after_first_old:
  "slashdot p CHR ''.'' CHR ''/'' =
     (case find is_delim p of
        None \<Rightarrow> p
      | Some c \<Rightarrow> if c = CHR ''.'' then map swap_delim p else p)
   \<and> slashdot p CHR ''/'' CHR ''.'' =
     (case find is_delim p of
        None \<Rightarrow> p
      | Some c \<Rightarrow> if c = CHR ''/'' then map swap_delim p else p)
   \<and> slashdot ''net.ipv4.ip_forward'' CHR ''.'' CHR ''/'' = ''net/ipv4/ip_forward''"
proof -
  have a: "slashdot q CHR ''.'' CHR ''/'' =
     (case find is_delim q of
        None \<Rightarrow> q
      | Some c \<Rightarrow> if c = CHR ''.'' then map swap_delim q else q)" for q
    by (rule slashdot_char) (simp_all add: is_delim_def)
  have b: "slashdot p CHR ''/'' CHR ''.'' =
     (case find is_delim p of
        None \<Rightarrow> p
      | Some c \<Rightarrow> if c = CHR ''/'' then map swap_delim p else p)"
    by (rule slashdot_char) (simp_all add: is_delim_def)
  have c: "slashdot ''net.ipv4.ip_forward'' CHR ''.'' CHR ''/'' = ''net/ipv4/ip_forward''"
    by (simp add: a is_delim_def swap_delim_def)
  from a b c show ?thesis
    by blast
qed

text \<open>
  C3, as the claim states it, fails: in \<open>a/b.c\<close> the first delimiter is already a slash,
  so the conversion of dots to slashes leaves the string alone, where the uniform swap
  gives \<open>a.b/c\<close>.
\<close>

theorem slashdot_uniform_swap_counterexample:
  "slashdot ''a/b.c'' CHR ''.'' CHR ''/'' = ''a/b.c''
   \<and> map swap_delim ''a/b.c'' = ''a.b/c''"
  by (simp add: slashdot_def swap_delim_def)

text \<open>
  C4. A key with at least one dot and no slash is returned by the conversion to a path
  followed by the conversion back to a key.
\<close>

theorem slashdot_round_trip:
  assumes "CHR ''.'' \<in> set K" and "CHR ''/'' \<notin> set K"
  shows "slashdot (slashdot K CHR ''.'' CHR ''/'') CHR ''/'' CHR ''.'' = K"
proof -
  have first: "find is_delim K = Some CHR ''.''"
    using assms by (rule find_delim_dotted)
  have to_path: "slashdot K CHR ''.'' CHR ''/'' = map swap_delim K"
    by (subst slashdot_char) (simp_all add: is_delim_def first)
  have "find is_delim (map swap_delim K) = Some CHR ''/''"
    by (simp add: find_delim_swapped first swap_delim_def)
  then have to_key:
    "slashdot (map swap_delim K) CHR ''/'' CHR ''.'' = map swap_delim (map swap_delim K)"
    by (subst slashdot_char) (simp_all add: is_delim_def)
  show ?thesis
    by (simp only: to_path to_key swap_delim_involution)
qed

theorem slashdot_round_trip_witness:
  "CHR ''.'' \<in> set ''net.ipv4.ip_forward'' \<and> CHR ''/'' \<notin> set ''net.ipv4.ip_forward''
   \<and> slashdot (slashdot ''net.ipv4.ip_forward'' CHR ''.'' CHR ''/'') CHR ''/'' CHR ''.''
       = ''net.ipv4.ip_forward''"
  using slashdot_round_trip [of "''net.ipv4.ip_forward''"] by simp

section \<open>The single-key accessors\<close>

text \<open>
  C6. A setting with no \<open>=\<close>, or with nothing before its first \<open>=\<close>, or with nothing
  after it, makes \<^verbatim>\<open>WriteSetting\<close> return a nonzero code (\<open>-1\<close> with the message
  \<open>ERR_NO_EQUALS\<close>, \<open>-2\<close> with \<open>ERR_MALFORMED_SETTING\<close>) whatever the file system is:
  the log of file system calls and standard output stay as they were.
\<close>

theorem WriteSetting_malformed:
  assumes "CHR ''='' \<notin> set setting
           \<or> (\<exists>k v. setting = k @ ''='' @ v \<and> CHR ''='' \<notin> set k \<and> (k = [] \<or> v = []))"
  shows "WriteSetting fs setting w =
           (if CHR ''='' \<in> set setting then (- 2, eprintf (ERR_MALFORMED_SETTING setting) w)
            else (- 1, eprintf (ERR_NO_EQUALS setting) w))
         \<and> fst (WriteSetting fs setting w) \<noteq> 0
         \<and> trace (snd (WriteSetting fs setting w)) = trace w
         \<and> stdout (snd (WriteSetting fs setting w)) = stdout w"
proof -
  have eq: "WriteSetting fs setting w =
           (if CHR ''='' \<in> set setting then (- 2, eprintf (ERR_MALFORMED_SETTING setting) w)
            else (- 1, eprintf (ERR_NO_EQUALS setting) w))"
  proof (cases "CHR ''='' \<in> set setting")
    case False
    then have "index setting CHR ''='' = None"
      by (simp add: index_None)
    with False show ?thesis
      by (simp add: WriteSetting_def)
  next
    case True
    with assms obtain k v where s: "setting = k @ ''='' @ v" and k: "CHR ''='' \<notin> set k"
      and e: "k = [] \<or> v = []"
      by auto
    from k have "index setting CHR ''='' = Some (length k)"
      unfolding s using index_first [of "CHR ''=''" k v] by simp
    with True e s show ?thesis
      by (auto simp: WriteSetting_def Let_def)
  qed
  show ?thesis
    unfolding eq by simp
qed

theorem WriteSetting_malformed_witness:
  "WriteSetting (fs_failing ENOENT) ''noequals'' w_init
     = (- 1, eprintf (ERR_NO_EQUALS ''noequals'') w_init)
   \<and> WriteSetting (fs_failing ENOENT) ''=1'' w_init
     = (- 2, eprintf (ERR_MALFORMED_SETTING ''=1'') w_init)
   \<and> WriteSetting (fs_failing ENOENT) ''a.b='' w_init
     = (- 2, eprintf (ERR_MALFORMED_SETTING ''a.b='') w_init)
   \<and> trace (snd (WriteSetting (fs_failing ENOENT) ''noequals'' w_init)) = []"
proof -
  have 1: "CHR ''='' \<notin> set ''noequals''"
    by simp
  have 2: "\<exists>k v. ''=1'' = k @ ''='' @ v \<and> CHR ''='' \<notin> set k \<and> (k = [] \<or> v = [])"
    by (rule exI [of _ "[]"], rule exI [of _ "''1''"]) simp
  have 3: "\<exists>k v. ''a.b='' = k @ ''='' @ v \<and> CHR ''='' \<notin> set k \<and> (k = [] \<or> v = [])"
    by (rule exI [of _ "''a.b''"], rule exI [of _ "[]"]) simp
  from WriteSetting_malformed [of "''noequals''" "fs_failing ENOENT" w_init] 1
       WriteSetting_malformed [of "''=1''" "fs_failing ENOENT" w_init] 2
       WriteSetting_malformed [of "''a.b=''" "fs_failing ENOENT" w_init] 3
  show ?thesis
    by simp
qed

text \<open>
  C5. When the open fails with error code \<open>e\<close>, \<^verbatim>\<open>ReadSetting\<close> and \<^verbatim>\<open>WriteSetting\<close>
  (on a setting \<open>k=v\<close> with both sides non-empty) return \<open>-1\<close>, leave standard output as
  it was, make no call but the failed open, and end standard error with one message chosen
  by \<open>e\<close> alone: \<open>ERR_INVALID_KEY\<close> for \<open>ENOENT\<close>, \<open>ERR_PERMISSION_DENIED\<close> for
  \<open>EACCES\<close>, and otherwise \<open>ERR_UNKNOWN_READING\<close> or \<open>ERR_UNKNOWN_WRITING\<close> carrying \<open>e\<close>.
  (\<^verbatim>\<open>ReadSetting\<close> of the empty key reports \<open>ERR_INVALID_KEY\<close> once more before the open.)
\<close>

theorem open_failure_classified:
  "(fopen fs (PROC_PATH @ slashdot setting CHR ''.'' CHR ''/'') ''r'' = Inl e \<longrightarrow>
      fst (ReadSetting fs setting w) = - 1
      \<and> stdout (snd (ReadSetting fs setting w)) = stdout w
      \<and> trace (snd (ReadSetting fs setting w)) =
          trace w @ [Fopen (PROC_PATH @ slashdot setting CHR ''.'' CHR ''/'') ''r'']
      \<and> stderr (snd (ReadSetting fs setting w)) =
          stderr w @ (if setting = [] then [ERR_INVALID_KEY setting] else [])
          @ [if e = ENOENT then ERR_INVALID_KEY (slashdot setting CHR ''/'' CHR ''.'')
             else if e = EACCES then ERR_PERMISSION_DENIED (slashdot setting CHR ''/'' CHR ''.'')
             else ERR_UNKNOWN_READING e (slashdot setting CHR ''/'' CHR ''.'')])
   \<and> (CHR ''='' \<notin> set k \<and> k \<noteq> [] \<and> v \<noteq> []
      \<and> fopen fs (PROC_PATH @ slashdot k CHR ''.'' CHR ''/'') ''w'' = Inl e' \<longrightarrow>
      fst (WriteSetting fs (k @ ''='' @ v) w) = - 1
      \<and> stdout (snd (WriteSetting fs (k @ ''='' @ v) w)) = stdout w
      \<and> trace (snd (WriteSetting fs (k @ ''='' @ v) w)) =
          trace w @ [Fopen (PROC_PATH @ slashdot k CHR ''.'' CHR ''/'') ''w'']
      \<and> stderr (snd (WriteSetting fs (k @ ''='' @ v) w)) =
          stderr w
          @ [if e' = ENOENT then ERR_INVALID_KEY (slashdot k CHR ''/'' CHR ''.'')
             else if e' = EACCES then ERR_PERMISSION_DENIED (slashdot k CHR ''/'' CHR ''.'')
             else ERR_UNKNOWN_WRITING e' (slashdot k CHR ''/'' CHR ''.'')])"
proof (intro conjI impI)
  assume "fopen fs (PROC_PATH @ slashdot setting CHR ''.'' CHR ''/'') ''r'' = Inl e"
  then show "fst (ReadSetting fs setting w) = - 1"
    "stdout (snd (ReadSetting fs setting w)) = stdout w"
    "trace (snd (ReadSetting fs setting w)) =
          trace w @ [Fopen (PROC_PATH @ slashdot setting CHR ''.'' CHR ''/'') ''r'']"
    "stderr (snd (ReadSetting fs setting w)) =
          stderr w @ (if setting = [] then [ERR_INVALID_KEY setting] else [])
          @ [if e = ENOENT then ERR_INVALID_KEY (slashdot setting CHR ''/'' CHR ''.'')
             else if e = EACCES then ERR_PERMISSION_DENIED (slashdot setting CHR ''/'' CHR ''.'')
             else ERR_UNKNOWN_READING e (slashdot setting CHR ''/'' CHR ''.'')]"
    by (simp_all add: ReadSetting_def Let_def)
next
  assume a: "CHR ''='' \<notin> set k \<and> k \<noteq> [] \<and> v \<noteq> []
      \<and> fopen fs (PROC_PATH @ slashdot k CHR ''.'' CHR ''/'') ''w'' = Inl e'"
  then have i: "index (k @ ''='' @ v) CHR ''='' = Some (length k)"
    using index_first [of "CHR ''=''" k v] by simp
  from a i show "fst (WriteSetting fs (k @ ''='' @ v) w) = - 1"
    "stdout (snd (WriteSetting fs (k @ ''='' @ v) w)) = stdout w"
    "trace (snd (WriteSetting fs (k @ ''='' @ v) w)) =
          trace w @ [Fopen (PROC_PATH @ slashdot k CHR ''.'' CHR ''/'') ''w'']"
    "stderr (snd (WriteSetting fs (k @ ''='' @ v) w)) =
          stderr w
          @ [if e' = ENOENT then ERR_INVALID_KEY (slashdot k CHR ''/'' CHR ''.'')
             else if e' = EACCES then ERR_PERMISSION_DENIED (slashdot k CHR ''/'' CHR ''.'')
             else ERR_UNKNOWN_WRITING e' (slashdot k CHR ''/'' CHR ''.'')]"
    by (simp_all add: WriteSetting_def Let_def)
qed

theorem open_failure_classified_witness:
  "fst (WriteSetting (fs_failing ENOENT) ''a.b=1'' w_init) = - 1
   \<and> stdout (snd (WriteSetting (fs_failing ENOENT) ''a.b=1'' w_init)) = []
   \<and> stderr (snd (WriteSetting (fs_failing ENOENT) ''a.b=1'' w_init)) = [ERR_INVALID_KEY ''a.b'']
   \<and> stderr (snd (WriteSetting (fs_failing 5) ''a.b=1'' w_init)) = [ERR_UNKNOWN_WRITING 5 ''a.b'']
   \<and> fst (ReadSetting (fs_failing EACCES) ''a.b'' w_init) = - 1
   \<and> stdout (snd (ReadSetting (fs_failing EACCES) ''a.b'' w_init)) = []
   \<and> stderr (snd (ReadSetting (fs_failing EACCES) ''a.b'' w_init)) = [ERR_PERMISSION_DENIED ''a.b'']
   \<and> stderr (snd (ReadSetting (fs_failing ENOENT) ''a.b'' w_init)) = [ERR_INVALID_KEY ''a.b'']"
  using open_failure_classified [where fs = "fs_failing ENOENT" and setting = "''a.b''"
          and e = ENOENT and w = w_init and k = "''a.b''" and v = "''1''" and e' = ENOENT]
        open_failure_classified [where fs = "fs_failing EACCES" and setting = "''a.b''"
          and e = EACCES and w = w_init and k = "''a.b''" and v = "''1''" and e' = EACCES]
        open_failure_classified [where fs = "fs_failing 5" and setting = "''a.b''"
          and e = 5 and w = w_init and k = "''a.b''" and v = "''1''" and e' = 5]
  by (simp add: slashdot_char is_delim_def swap_delim_def ENOENT_def EACCES_def)

lemma ReadSetting_while_bare:
  "\<not> PrintName w \<Longrightarrow> CHR 0x00 \<notin> set fp \<Longrightarrow>
     ReadSetting_while outname fp w =
       printf (if PrintNewline w then fp else filter (\<lambda>c. c \<noteq> CHR 0x0A) fp) w"
proof (induction outname fp w rule: ReadSetting_while.induct)
  case (1 outname fp w)
  show ?case
  proof (cases "fgets 1024 fp")
    case None
    then have "fp = []" by (simp add: fgets_def split: if_splits)
    then show ?thesis by (subst ReadSetting_while.simps) (simp add: fgets_def printf_Nil)
  next
    case (Some t)
    then obtain buf fp' where t: "fgets 1024 fp = Some (buf, fp')" by (cases t) auto
    then have ch: "fgets_chars 1023 fp = (buf, fp')" by (simp add: fgets_def split: if_splits)
    have sp: "fp = buf @ fp'" by (rule fgets_chars_split [OF ch])
    have nl: "takeWhile (\<lambda>c. c \<noteq> CHR 0x0A) buf = filter (\<lambda>c. c \<noteq> CHR 0x0A) buf"
      by (rule fgets_chars_newline_last [OF ch])
    from sp "1.prems" have cl: "c_str buf = buf" and cl': "CHR 0x00 \<notin> set fp'"
      by (simp_all add: c_str_clean)
    show ?thesis
    proof (cases "PrintNewline w")
      case True
      have "ReadSetting_while outname fp' (printf (c_str buf) w)
            = printf (if PrintNewline (printf (c_str buf) w) then fp' else filter (\<lambda>c. c \<noteq> CHR 0x0A) fp') (printf (c_str buf) w)"
        using "1.prems"(1) True cl' by (intro "1.IH"(3) [OF t refl refl]) simp_all
      with True "1.prems"(1) t cl sp show ?thesis
        by (subst ReadSetting_while.simps) (simp add: printf_printf)
    next
      case False
      have "ReadSetting_while outname fp' (printf (takeWhile (\<lambda>c. c \<noteq> CHR 0x0A) (c_str buf)) w)
            = printf (if PrintNewline (printf (takeWhile (\<lambda>c. c \<noteq> CHR 0x0A) (c_str buf)) w) then fp' else filter (\<lambda>c. c \<noteq> CHR 0x0A) fp') (printf (takeWhile (\<lambda>c. c \<noteq> CHR 0x0A) (c_str buf)) w)"
        using "1.prems"(1) False cl' by (intro "1.IH"(2) [OF t refl refl]) simp_all
      with False "1.prems"(1) t cl sp nl show ?thesis
        by (subst ReadSetting_while.simps) (simp add: printf_printf)
    qed
  qed
qed

lemma ReadSetting_while_named:
  "PrintName w \<Longrightarrow> \<forall>l\<in>set ls. CHR 0x0A \<notin> set l \<and> CHR 0x00 \<notin> set l \<and> length l < 1023 \<Longrightarrow>
     ReadSetting_while outname (concat (map (\<lambda>l. l @ [CHR 0x0A]) ls)) w =
       printf (concat (map (\<lambda>l. outname @ '' = '' @ l @ [CHR 0x0A]) ls)) w"
proof (induction ls arbitrary: w)
  case Nil
  show ?case by (subst ReadSetting_while.simps) (simp add: fgets_def printf_Nil)
next
  case (Cons l ls)
  let ?rest = "concat (map (\<lambda>l. l @ [CHR 0x0A]) ls)"
  from Cons.prems have l: "CHR 0x0A \<notin> set l" "CHR 0x00 \<notin> set l" "length l < 1023" by simp_all
  have g: "fgets 1024 (l @ CHR 0x0A # ?rest) = Some (l @ [CHR 0x0A], ?rest)"
    using fgets_chars_line [OF l(1) l(3), of ?rest] by (simp add: fgets_def)
  have cl: "c_str (l @ [CHR 0x0A]) = l @ [CHR 0x0A]"
    using l(2) by (simp add: c_str_clean)
  have ih: "ReadSetting_while outname ?rest (printf (outname @ '' = '' @ l @ [CHR 0x0A]) w)
     = printf (concat (map (\<lambda>l. outname @ '' = '' @ l @ [CHR 0x0A]) ls)) (printf (outname @ '' = '' @ l @ [CHR 0x0A]) w)"
    using Cons.prems by (intro Cons.IH) simp_all
  show ?case
    using g cl ih Cons.prems(1)
    by (subst ReadSetting_while.simps) (simp add: printf_printf)
qed

lemma main_one_flag_read:
  assumes "key \<noteq> []" "hd key \<noteq> CHR ''-''"
  shows "main fuel fs [prog, ''-n'', key] w =
           Some (0, snd (ReadSetting fs key (w\<lparr>PrintNewline := True, PrintName := False\<rparr>)))"
    and "main fuel fs [prog, ''-b'', key] w =
           Some (0, snd (ReadSetting fs key (w\<lparr>PrintNewline := False, PrintName := False\<rparr>)))"
  using assms by (auto simp: main_def Let_def split: prod.splits)

text \<open>
  C8, as the code has it. When the open succeeds and the stream delivers \<open>content\<close> (free
  of NUL bytes), \<^verbatim>\<open>ReadSetting\<close> returns 0 and appends to standard output: with the name
  flag off and the newline flag on (\<open>-n\<close>), \<open>content\<close> as it is; with both flags off
  (\<open>-b\<close>), \<open>content\<close> with every newline removed, so the terminator of every line is
  suppressed, not only that of the last one; with the name flag on, every line (of fewer
  than 1023 bytes) prefixed with the display key and \<open> = \<close>. For the one-line value
  \<open>1\<close> the output is \<open>1\<close> under \<open>-b\<close> and \<open>1\<close> with its newline under \<open>-n\<close>.
\<close>

theorem ReadSetting_streams_lines:
  assumes "fopen fs (PROC_PATH @ slashdot key CHR ''.'' CHR ''/'') ''r'' = Inr content"
    and "CHR 0x00 \<notin> set content"
    and "key \<noteq> []"
  shows "(\<not> PrintName w \<and> PrintNewline w \<longrightarrow>
            ReadSetting fs key w =
              (0, printf content
                    (called (Fopen (PROC_PATH @ slashdot key CHR ''.'' CHR ''/'') ''r'') w)))
       \<and> (\<not> PrintName w \<and> \<not> PrintNewline w \<longrightarrow>
            ReadSetting fs key w =
              (0, printf (filter (\<lambda>c. c \<noteq> CHR 0x0A) content)
                    (called (Fopen (PROC_PATH @ slashdot key CHR ''.'' CHR ''/'') ''r'') w)))
       \<and> (PrintName w \<and> content = concat (map (\<lambda>l. l @ [CHR 0x0A]) ls)
            \<and> (\<forall>l\<in>set ls. CHR 0x0A \<notin> set l \<and> length l < 1023) \<longrightarrow>
            ReadSetting fs key w =
              (0, printf (concat (map (\<lambda>l. slashdot key CHR ''/'' CHR ''.'' @ '' = '' @ l @ [CHR 0x0A]) ls))
                    (called (Fopen (PROC_PATH @ slashdot key CHR ''.'' CHR ''/'') ''r'') w)))
       \<and> (hd key \<noteq> CHR ''-'' \<longrightarrow>
            map_option (stdout \<circ> snd) (main fuel fs [prog, ''-n'', key] w) = Some (stdout w @ content)
            \<and> map_option (stdout \<circ> snd) (main fuel fs [prog, ''-b'', key] w)
                = Some (stdout w @ filter (\<lambda>c. c \<noteq> CHR 0x0A) content))"
proof -
  let ?tmp = "PROC_PATH @ slashdot key CHR ''.'' CHR ''/''"
  have bare: "ReadSetting fs key v =
      (0, printf (if PrintNewline v then content else filter (\<lambda>c. c \<noteq> CHR 0x0A) content)
            (called (Fopen ?tmp ''r'') v))" if "\<not> PrintName v" for v
    using that assms ReadSetting_while_bare [of "called (Fopen ?tmp ''r'') v" content]
    by (simp add: ReadSetting_def Let_def)
  have named: "ReadSetting fs key w =
              (0, printf (concat (map (\<lambda>l. slashdot key CHR ''/'' CHR ''.'' @ '' = '' @ l @ [CHR 0x0A]) ls))
                    (called (Fopen ?tmp ''r'') w))"
    if "PrintName w" and c: "content = concat (map (\<lambda>l. l @ [CHR 0x0A]) ls)"
      and f: "\<forall>l\<in>set ls. CHR 0x0A \<notin> set l \<and> length l < 1023"
  proof -
    have "set l \<subseteq> set content" if "l \<in> set ls" for l
      using that unfolding c by (induction ls) auto
    with assms(2) have "\<forall>l\<in>set ls. CHR 0x00 \<notin> set l" by blast
    with f have "\<forall>l\<in>set ls. CHR 0x0A \<notin> set l \<and> CHR 0x00 \<notin> set l \<and> length l < 1023" by blast
    from ReadSetting_while_named [OF _ this, of "called (Fopen ?tmp ''r'') w"] that(1) assms(1,3) c
    show ?thesis by (simp add: ReadSetting_def Let_def)
  qed
  have flags: "map_option (stdout \<circ> snd) (main fuel fs [prog, ''-n'', key] w) = Some (stdout w @ content)
            \<and> map_option (stdout \<circ> snd) (main fuel fs [prog, ''-b'', key] w)
                = Some (stdout w @ filter (\<lambda>c. c \<noteq> CHR 0x0A) content)" if "hd key \<noteq> CHR ''-''"
    using main_one_flag_read [OF assms(3) that, of fuel fs prog w]
    by (simp add: bare)
  from bare [of w] named flags show ?thesis by simp
qed

theorem ReadSetting_streams_lines_witness:
  "ReadSetting fs_values ''one'' (w_init\<lparr>PrintName := False\<rparr>)
     = (0, printf (''1'' @ [CHR 0x0A]) (called (Fopen ''/proc/sys/one'' ''r'') (w_init\<lparr>PrintName := False\<rparr>)))
   \<and> ReadSetting fs_values ''one'' (w_init\<lparr>PrintName := False, PrintNewline := False\<rparr>)
     = (0, printf ''1'' (called (Fopen ''/proc/sys/one'' ''r'') (w_init\<lparr>PrintName := False, PrintNewline := False\<rparr>)))
   \<and> ReadSetting fs_values ''two'' w_init
     = (0, printf (''two = a'' @ [CHR 0x0A] @ ''two = b'' @ [CHR 0x0A]) (called (Fopen ''/proc/sys/two'' ''r'') w_init))
   \<and> map_option (stdout \<circ> snd) (main 0 fs_values [''sysctl'', ''-n'', ''one''] w_init) = Some (''1'' @ [CHR 0x0A])
   \<and> map_option (stdout \<circ> snd) (main 0 fs_values [''sysctl'', ''-b'', ''one''] w_init) = Some ''1''"
proof -
  have one: "fopen fs_values (PROC_PATH @ slashdot ''one'' CHR ''.'' CHR ''/'') ''r'' = Inr (''1'' @ [CHR 0x0A])"
    by (simp add: fs_values_def PROC_PATH_def slashdot_char is_delim_def)
  have two: "fopen fs_values (PROC_PATH @ slashdot ''two'' CHR ''.'' CHR ''/'') ''r'' = Inr (''a'' @ [CHR 0x0A] @ ''b'' @ [CHR 0x0A])"
    by (simp add: fs_values_def PROC_PATH_def slashdot_char is_delim_def)
  have ls: "''a'' @ [CHR 0x0A] @ ''b'' @ [CHR 0x0A] = concat (map (\<lambda>l. l @ [CHR 0x0A]) [''a'', ''b''])"
    by simp
  from ReadSetting_streams_lines [OF one, where w = "w_init\<lparr>PrintName := False\<rparr>" and fuel = 0 and prog = "''sysctl''"]
       ReadSetting_streams_lines [OF one, where w = "w_init\<lparr>PrintName := False, PrintNewline := False\<rparr>"]
       ReadSetting_streams_lines [OF one, where w = "w_init" and fuel = 0 and prog = "''sysctl''"]
       ReadSetting_streams_lines [OF two, where w = "w_init" and ls = "[''a'', ''b'']"]
  show ?thesis
    by (simp add: PROC_PATH_def slashdot_char is_delim_def)
qed

text \<open>
  C8, as the claim states it, fails: under \<open>-b\<close> the two-line value \<open>a\<close>, \<open>b\<close> is
  printed as \<open>ab\<close>. The first line has lost its terminator as well.
\<close>

theorem newline_suppressed_on_every_line_counterexample:
  "main 0 fs_values [''sysctl'', ''-b'', ''two''] w_init =
     Some (0, \<lparr>PrintName = False, PrintNewline = False, stdout = ''ab'', stderr = [],
               trace = [Fopen ''/proc/sys/two'' ''r'']\<rparr>)"
  by code_simp

section \<open>The preload processor\<close>

lemma blank_fun: "(\<lambda>x. x = CHR '' '' \<or> x = CHR 0x09) = blank"
  by (auto simp: blank_def)

lemma dropWhile_blank_lead:
  assumes "\<forall>x\<in>set lead. blank x" and "t \<noteq> []" and "\<not> blank (hd t)"
  shows "dropWhile blank (lead @ t) = t"
proof -
  have "dropWhile blank (lead @ t) = dropWhile blank t"
    using assms(1) by (simp add: dropWhile_append2)
  also have "\<dots> = t"
    using assms(2,3) by (cases t) simp_all
  finally show ?thesis .
qed

lemma Preload_line_white:
  assumes "\<forall>x\<in>set l. white x"
  shows "Preload_line fs filename n (l @ [CHR 0x0A]) w = w"
proof -
  have "\<forall>x\<in>set (l @ [CHR 0x0A]). white x"
    using assms by (simp add: white_def)
  then have "length (snd (StripLeadingAndTrailingSpaces (l @ [CHR 0x0A]))) < 2"
    by (rule Strip_white)
  then show ?thesis
    by (simp add: Preload_line_def Let_def)
qed

lemma Preload_line_comment:
  assumes "\<forall>x\<in>set lead. blank x" and "c = CHR ''#'' \<or> c = CHR '';''"
  shows "Preload_line fs filename n (lead @ c # rest) w = w"
proof -
  from Strip_comment [OF assms, of rest]
  obtain r where "snd (StripLeadingAndTrailingSpaces (lead @ c # rest)) = c # r"
    by blast
  with assms(2) show ?thesis
    by (simp add: Preload_line_def Let_def)
qed

lemma Preload_line_warn:
  assumes lead: "\<forall>x\<in>set lead. blank x" and trail: "\<forall>x\<in>set trail. white x"
    and t: "t = e1 @ body @ e2" "e1 = [] \<or> e1 = ''=''" "e2 = [] \<or> e2 = ''=''"
           "CHR ''='' \<notin> set body"
    and st: "2 \<le> length t" "\<not> blank (hd t)" "\<not> white (last t)"
    and nc: "hd t \<noteq> CHR ''#''" "hd t \<noteq> CHR '';''"
  shows "Preload_line fs filename n (lead @ t @ trail @ [CHR 0x0A]) w
           = eprintf (WARN_BAD_LINE filename n) w"
proof -
  from st(1) have ne: "t \<noteq> []" by auto
  have s: "snd (StripLeadingAndTrailingSpaces (lead @ t @ trail @ [CHR 0x0A])) = t"
    using lead trail ne st(2,3) by (rule Strip_line)
  have tk: "strtok t ''='' = (if body = [] then None else Some (body, []))"
    unfolding t(1) using t(4,2,3) by (rule strtok_no_value)
  have nil: "strtok [] [CHR 0x0A, CHR 0x0D] = None"
    by (simp add: strtok_def)
  from st(1) nc show ?thesis
    by (simp add: Preload_line_def Let_def s tk nil)
qed

lemma Preload_line_stripped:
  assumes "snd (StripLeadingAndTrailingSpaces oneline) = t"
    and "2 \<le> length t" and "hd t \<noteq> CHR ''#''" and "hd t \<noteq> CHR '';''"
    and "strtok t ''='' = Some (tok, saved)" and "tok \<noteq> []"
    and "fst (StripLeadingAndTrailingSpaces tok) = nm"
    and "strtok saved [CHR 0x0A, CHR 0x0D] = Some (tok', r)" and "tok' \<noteq> []"
    and "dropWhile blank tok' = v"
  shows "Preload_line fs filename n oneline w = snd (WriteSetting fs (nm @ ''='' @ v) w)"
  using assms by (simp add: Preload_line_def Let_def blank_fun)

lemma Preload_line_dispatch:
  assumes lead: "\<forall>x\<in>set lead. blank x" and trail: "\<forall>x\<in>set trail. white x"
    and mid: "\<forall>x\<in>set mid1. blank x" "\<forall>x\<in>set mid2. blank x"
    and name: "name \<noteq> []" "\<not> blank (hd name)" "\<not> white (last name)" "CHR ''='' \<notin> set name"
              "hd name \<noteq> CHR ''#''" "hd name \<noteq> CHR '';''"
    and val: "val \<noteq> []" "\<not> blank (hd val)" "\<not> white (last val)"
             "CHR 0x0A \<notin> set val" "CHR 0x0D \<notin> set val"
  shows "Preload_line fs filename n (lead @ (name @ mid1 @ ''='' @ mid2 @ val) @ trail @ [CHR 0x0A]) w
           = snd (WriteSetting fs (name @ ''='' @ val) w)"
proof -
  let ?t = "name @ mid1 @ ''='' @ mid2 @ val"
  have ne: "?t \<noteq> []" using name(1) by simp
  have hd: "hd ?t = hd name" using name(1) by simp
  have la: "last ?t = last val" using val(1) by simp
  have len: "2 \<le> length ?t" using name(1) by (cases name) simp_all
  have s: "snd (StripLeadingAndTrailingSpaces (lead @ ?t @ trail @ [CHR 0x0A])) = ?t"
  proof (rule Strip_line [OF lead trail ne])
    show "\<not> blank (hd ?t)" unfolding hd by (rule name(2))
    show "\<not> white (last ?t)" unfolding la by (rule val(3))
  qed
  have eq1: "CHR ''='' \<notin> set mid1"
  proof
    assume "CHR ''='' \<in> set mid1"
    with mid(1) have "blank CHR ''=''" by blast
    then show False by (simp add: blank_def)
  qed
  have tk: "strtok ?t ''='' = Some (name @ mid1, mid2 @ val)"
    using strtok_name [of "name @ mid1" "mid2 @ val"] name(1,4) eq1 by simp
  from name(1) obtain a c where nm: "name = a @ [c]" by (metis rev_exhaust)
  with name(3) have c: "\<not> white c" by simp
  have m1: "\<forall>x\<in>set mid1. white x" using mid(1) blank_white by blast
  have nm': "fst (StripLeadingAndTrailingSpaces (name @ mid1)) = name"
    using Strip_trailing [OF c m1, of a] by (simp add: nm)
  have tv: "strtok (mid2 @ val) [CHR 0x0A, CHR 0x0D] = Some (mid2 @ val, [])"
    using mid(2) val(1,4,5) by (rule strtok_value)
  have dv: "dropWhile blank (mid2 @ val) = val"
    using mid(2) val(1,2) by (rule dropWhile_blank_lead)
  have h1: "hd ?t \<noteq> CHR ''#''" and h2: "hd ?t \<noteq> CHR '';''"
    unfolding hd using name(5,6) by blast+
  have n1: "name @ mid1 \<noteq> []" and n2: "mid2 @ val \<noteq> []"
    using name(1) val(1) by simp_all
  show ?thesis
    by (rule Preload_line_stripped [OF s len h1 h2 tk n1 nm' tv n2 dv])
qed

lemma Preload_while_lines:
  assumes "\<forall>l\<in>set ls. CHR 0x0A \<notin> set l \<and> CHR 0x00 \<notin> set l \<and> length l < 255"
  shows "Preload_while fs filename (concat (map (\<lambda>l. l @ [CHR 0x0A]) ls)) (word_of_nat m) w =
           foldl (\<lambda>w (k, l). Preload_line fs filename (sint (word_of_nat k :: 32 word)) (l @ [CHR 0x0A]) w) w
             (enumerate (Suc m) ls)"
  using assms
proof (induction ls arbitrary: m w)
  case Nil
  show ?case
    by (subst Preload_while.simps) (simp add: fgets_def)
next
  case (Cons l ls)
  let ?rest = "concat (map (\<lambda>l. l @ [CHR 0x0A]) ls)"
  from Cons.prems have l: "CHR 0x0A \<notin> set l" "CHR 0x00 \<notin> set l" "length l < 255"
    by simp_all
  have g: "fgets 256 (l @ CHR 0x0A # ?rest) = Some (l @ [CHR 0x0A], ?rest)"
    using fgets_chars_line [OF l(1) l(3), of ?rest] by (simp add: fgets_def)
  have cl: "c_str (l @ [CHR 0x0A]) = l @ [CHR 0x0A]"
    using l(2) by (simp add: c_str_clean)
  have ih: "Preload_while fs filename ?rest (word_of_nat (Suc m)) w' =
           foldl (\<lambda>w (k, l). Preload_line fs filename (sint (word_of_nat k :: 32 word)) (l @ [CHR 0x0A]) w) w'
             (enumerate (Suc (Suc m)) ls)" for w'
    using Cons.prems by (intro Cons.IH) simp
  have "Preload_while fs filename (l @ CHR 0x0A # ?rest) (word_of_nat m) w =
          Preload_while fs filename ?rest (word_of_nat (Suc m))
            (Preload_line fs filename (sint (word_of_nat (Suc m) :: 32 word)) (l @ [CHR 0x0A]) w)"
    by (subst Preload_while.simps) (simp add: g cl add.commute)
  then show ?case
    by (simp add: ih del: of_nat_Suc)
qed

text \<open>
  What \<^verbatim>\<open>Preload\<close> does on a source whose lines end with a newline, hold no NUL and are
  shorter than 255 bytes: the \<open>k\<close>-th line is processed with the counter at \<open>k\<close> (read as
  a signed 32-bit number). A line of white space only, and a line whose first non-blank
  byte is \<open>#\<close> or \<open>;\<close>, change nothing. A line whose stripped form has at least two bytes
  and no \<open>=\<close> but possibly its first or its last byte gives the warning with the source
  and the line number, and nothing else. A line of the form \<open>name = value\<close>, with blanks
  allowed around its parts and no carriage return in the value, is passed to
  \<^verbatim>\<open>WriteSetting\<close> as \<open>name=value\<close>. The source of the four lines \<open># comment\<close>,
  empty, \<open>foo.bar = 42\<close> and \<open>badline\<close> gives one write of \<open>foo.bar=42\<close> and one
  warning, for line 4.
\<close>

lemma Preload_lines:
  "(fopen fs filename ''r'' = Inr (concat (map (\<lambda>l. l @ [CHR 0x0A]) ls))
      \<and> (\<forall>l\<in>set ls. CHR 0x0A \<notin> set l \<and> CHR 0x00 \<notin> set l \<and> length l < 255) \<longrightarrow>
      Preload fs filename w =
        foldl (\<lambda>w (k, l). Preload_line fs filename (sint (word_of_nat k :: 32 word)) (l @ [CHR 0x0A]) w)
          (called (Fopen filename ''r'') w) (enumerate 1 ls))
   \<and> ((\<forall>x\<in>set l. white x) \<longrightarrow> Preload_line fs filename n (l @ [CHR 0x0A]) w = w)
   \<and> ((\<forall>x\<in>set lead. blank x) \<and> (c = CHR ''#'' \<or> c = CHR '';'') \<longrightarrow>
        Preload_line fs filename n (lead @ c # rest @ [CHR 0x0A]) w = w)
   \<and> ((\<forall>x\<in>set lead. blank x) \<and> (\<forall>x\<in>set trail. white x)
        \<and> (e1 = [] \<or> e1 = ''='') \<and> (e2 = [] \<or> e2 = ''='') \<and> CHR ''='' \<notin> set body
        \<and> 2 \<le> length (e1 @ body @ e2)
        \<and> \<not> blank (hd (e1 @ body @ e2)) \<and> \<not> white (last (e1 @ body @ e2))
        \<and> hd (e1 @ body @ e2) \<noteq> CHR ''#'' \<and> hd (e1 @ body @ e2) \<noteq> CHR '';'' \<longrightarrow>
        Preload_line fs filename n (lead @ (e1 @ body @ e2) @ trail @ [CHR 0x0A]) w
          = eprintf (WARN_BAD_LINE filename n) w)
   \<and> ((\<forall>x\<in>set lead. blank x) \<and> (\<forall>x\<in>set trail. white x)
        \<and> (\<forall>x\<in>set mid1. blank x) \<and> (\<forall>x\<in>set mid2. blank x)
        \<and> name \<noteq> [] \<and> \<not> blank (hd name) \<and> \<not> white (last name) \<and> CHR ''='' \<notin> set name
        \<and> hd name \<noteq> CHR ''#'' \<and> hd name \<noteq> CHR '';''
        \<and> val \<noteq> [] \<and> \<not> blank (hd val) \<and> \<not> white (last val)
        \<and> CHR 0x0A \<notin> set val \<and> CHR 0x0D \<notin> set val \<longrightarrow>
        Preload_line fs filename n (lead @ (name @ mid1 @ ''='' @ mid2 @ val) @ trail @ [CHR 0x0A]) w
          = snd (WriteSetting fs (name @ ''='' @ val) w))
   \<and> Preload fs_conf ''/etc/sysctl.conf'' w_init =
        \<lparr>PrintName = True, PrintNewline = True, stdout = ''foo.bar = 42'' @ [CHR 0x0A],
         stderr = [WARN_BAD_LINE ''/etc/sysctl.conf'' 4],
         trace = [Fopen ''/etc/sysctl.conf'' ''r'', Fopen ''/proc/sys/foo/bar'' ''w'',
                  Fwrite ''/proc/sys/foo/bar'' (''42'' @ [CHR 0x0A])]\<rparr>"
proof (intro conjI impI)
  assume a: "fopen fs filename ''r'' = Inr (concat (map (\<lambda>l. l @ [CHR 0x0A]) ls))
      \<and> (\<forall>l\<in>set ls. CHR 0x0A \<notin> set l \<and> CHR 0x00 \<notin> set l \<and> length l < 255)"
  then have f: "\<forall>l\<in>set ls. CHR 0x0A \<notin> set l \<and> CHR 0x00 \<notin> set l \<and> length l < 255"
    by blast
  from a Preload_while_lines [OF f, of fs filename 0 "called (Fopen filename ''r'') w"]
  show "Preload fs filename w =
        foldl (\<lambda>w (k, l). Preload_line fs filename (sint (word_of_nat k :: 32 word)) (l @ [CHR 0x0A]) w)
          (called (Fopen filename ''r'') w) (enumerate 1 ls)"
    by (simp add: Preload_def Let_def)
next
  assume "\<forall>x\<in>set l. white x"
  then show "Preload_line fs filename n (l @ [CHR 0x0A]) w = w"
    by (rule Preload_line_white)
next
  assume "(\<forall>x\<in>set lead. blank x) \<and> (c = CHR ''#'' \<or> c = CHR '';'')"
  then show "Preload_line fs filename n (lead @ c # rest @ [CHR 0x0A]) w = w"
    using Preload_line_comment [of lead c fs filename n "rest @ [CHR 0x0A]" w] by blast
next
  assume a: "(\<forall>x\<in>set lead. blank x) \<and> (\<forall>x\<in>set trail. white x)
        \<and> (e1 = [] \<or> e1 = ''='') \<and> (e2 = [] \<or> e2 = ''='') \<and> CHR ''='' \<notin> set body
        \<and> 2 \<le> length (e1 @ body @ e2)
        \<and> \<not> blank (hd (e1 @ body @ e2)) \<and> \<not> white (last (e1 @ body @ e2))
        \<and> hd (e1 @ body @ e2) \<noteq> CHR ''#'' \<and> hd (e1 @ body @ e2) \<noteq> CHR '';''"
  show "Preload_line fs filename n (lead @ (e1 @ body @ e2) @ trail @ [CHR 0x0A]) w
          = eprintf (WARN_BAD_LINE filename n) w"
    by (rule Preload_line_warn [OF _ _ refl]) (use a in blast)+
next
  assume a: "(\<forall>x\<in>set lead. blank x) \<and> (\<forall>x\<in>set trail. white x)
        \<and> (\<forall>x\<in>set mid1. blank x) \<and> (\<forall>x\<in>set mid2. blank x)
        \<and> name \<noteq> [] \<and> \<not> blank (hd name) \<and> \<not> white (last name) \<and> CHR ''='' \<notin> set name
        \<and> hd name \<noteq> CHR ''#'' \<and> hd name \<noteq> CHR '';''
        \<and> val \<noteq> [] \<and> \<not> blank (hd val) \<and> \<not> white (last val)
        \<and> CHR 0x0A \<notin> set val \<and> CHR 0x0D \<notin> set val"
  show "Preload_line fs filename n (lead @ (name @ mid1 @ ''='' @ mid2 @ val) @ trail @ [CHR 0x0A]) w
          = snd (WriteSetting fs (name @ ''='' @ val) w)"
    by (rule Preload_line_dispatch) (use a in blast)+
next
  show "Preload fs_conf ''/etc/sysctl.conf'' w_init =
        \<lparr>PrintName = True, PrintNewline = True, stdout = ''foo.bar = 42'' @ [CHR 0x0A],
         stderr = [WARN_BAD_LINE ''/etc/sysctl.conf'' 4],
         trace = [Fopen ''/etc/sysctl.conf'' ''r'', Fopen ''/proc/sys/foo/bar'' ''w'',
                  Fwrite ''/proc/sys/foo/bar'' (''42'' @ [CHR 0x0A])]\<rparr>"
    by code_simp
qed

lemma Preload_example:
  "Preload fs_conf ''/etc/sysctl.conf'' w_init =
     eprintf (WARN_BAD_LINE ''/etc/sysctl.conf'' 4)
       (snd (WriteSetting fs_conf ''foo.bar=42''
          (called (Fopen ''/etc/sysctl.conf'' ''r'') w_init)))"
proof -
  let ?f = "''/etc/sysctl.conf''"
  let ?w1 = "called (Fopen ?f ''r'') w_init"
  let ?w2 = "snd (WriteSetting fs_conf ''foo.bar=42'' ?w1)"
  have numbered: "Preload fs_conf ?f w_init =
      Preload_line fs_conf ?f 4 (''badline'' @ [CHR 0x0A])
        (Preload_line fs_conf ?f 3 (''foo.bar = 42'' @ [CHR 0x0A])
          (Preload_line fs_conf ?f 2 ([] @ [CHR 0x0A])
            (Preload_line fs_conf ?f 1 (''# comment'' @ [CHR 0x0A]) ?w1)))"
    using Preload_lines [where fs = fs_conf and filename = ?f and w = w_init
        and ls = "[''# comment'', [], ''foo.bar = 42'', ''badline'']"]
    by (simp add: fs_conf_def)
  have comment: "Preload_line fs_conf ?f 1 (''# comment'' @ [CHR 0x0A]) ?w1 = ?w1"
    using Preload_lines [where fs = fs_conf and filename = ?f and w = ?w1
        and n = 1 and lead = "[]" and c = "CHR ''#''" and rest = "'' comment''"]
    by simp
  have empty: "Preload_line fs_conf ?f 2 ([] @ [CHR 0x0A]) ?w1 = ?w1"
    using Preload_lines [where fs = fs_conf and filename = ?f and w = ?w1
        and n = 2 and l = "[]"]
    by simp
  have setting: "Preload_line fs_conf ?f 3 (''foo.bar = 42'' @ [CHR 0x0A]) ?w1 = ?w2"
    using Preload_lines [where fs = fs_conf and filename = ?f and w = ?w1
        and n = 3 and lead = "[]" and trail = "[]" and name = "''foo.bar''"
        and ?mid1.0 = "'' ''" and ?mid2.0 = "'' ''" and val = "''42''"]
    by (simp add: blank_def white_def)
  have bad: "Preload_line fs_conf ?f 4 (''badline'' @ [CHR 0x0A]) ?w2
               = eprintf (WARN_BAD_LINE ?f 4) ?w2"
    using Preload_lines [where fs = fs_conf and filename = ?f and w = ?w2
        and n = 4 and lead = "[]" and trail = "[]" and ?e1.0 = "[]" and ?e2.0 = "[]"
        and body = "''badline''"]
    by (simp add: blank_def white_def)
  show ?thesis
    by (simp only: numbered comment empty setting bad)
qed

text \<open>
  The counter wraps: a line with no \<open>=\<close> read when the counter stands at \<open>2^31 - 1\<close> is
  reported with the line number \<open>-2^31\<close>.
\<close>

lemma Preload_counter_wraps:
  "Preload_while (fs_failing ENOENT) ''conf'' (''badline'' @ [CHR 0x0A]) 2147483647 w_init
     = eprintf (WARN_BAD_LINE ''conf'' (- 2147483648)) w_init"
  by code_simp

text \<open>
  C7 at a failing input. The only line of the source is \<open>=a=b\<close>: nothing stands before
  its first \<open>=\<close>, so its name is empty. \<^verbatim>\<open>strtok\<close> skips the leading \<open>=\<close> and returns
  \<open>a\<close> as the name, the test for an empty name does not fire, and the line is written
  as the setting \<open>a=b\<close>: standard error stays empty.
\<close>

theorem Preload_writes_line_with_empty_name:
  "Preload fs_leading_equals ''/etc/sysctl.conf'' w_init =
     \<lparr>PrintName = True, PrintNewline = True, stdout = ''a = b'' @ [CHR 0x0A], stderr = [],
      trace = [Fopen ''/etc/sysctl.conf'' ''r'', Fopen ''/proc/sys/a'' ''w'',
               Fwrite ''/proc/sys/a'' (''b'' @ [CHR 0x0A])]\<rparr>"
  by code_simp

section \<open>The recursive enumerator\<close>

text \<open>
  One step of the loop of \<^verbatim>\<open>DisplayAll\<close>. For a regular entry the return code \<open>r\<close>
  of the read is or-ed into \<open>rc\<close>. For a subdirectory the loop goes on with the \<open>rc\<close>
  it had: the status \<open>r\<close> of the recursive call occurs nowhere in the result. The loop
  starts after the first two names of the listing, whatever they are.
\<close>

lemma DisplayAll_while_regular:
  assumes "stat fs (path @ d) = Inr False"
    and "ReadSetting fs (drop (length PROC_PATH) (path @ d)) (called (Stat (path @ d)) w) = (r, w')"
  shows "DisplayAll_while fuel fs path b (d # ds) rc w =
           DisplayAll_while fuel fs path b ds (rc OR r) w'"
  using assms by (simp add: Let_def)

lemma DisplayAll_while_subdirectory:
  assumes "stat fs (path @ d) = Inr True"
    and "DisplayAll fuel fs (path @ d @ ''/'') b (called (Stat (path @ d)) w) = Some (r, w')"
  shows "DisplayAll_while fuel fs path b (d # ds) rc w = DisplayAll_while fuel fs path b ds rc w'"
  using assms by (simp add: Let_def)

lemma DisplayAll_first_two_dropped:
  assumes "opendir fs path = Some (d1 # d2 # ds)"
  shows "DisplayAll (Suc fuel) fs path b w =
           DisplayAll_while fuel fs path b ds 0 (called (Opendir path) w)"
  using assms by (simp add: Let_def)

text \<open>
  C1 at a failing input. The root holds the subdirectory \<open>net\<close> and the file \<open>one\<close>;
  of the two files of \<open>net\<close>, \<open>f\<close> cannot be opened. All three files are read, the
  enumeration of \<open>net\<close> alone returns \<open>-1\<close>, and the enumeration of the root returns 0:
  the status of the recursive call is not part of the result.
\<close>

theorem DisplayAll_drops_subdirectory_status:
  "DisplayAll 2 fs_tree PROC_PATH False w_init =
     Some (0, \<lparr>PrintName = True, PrintNewline = True,
               stdout = ''net.g = 2'' @ [CHR 0x0A] @ ''one = 1'' @ [CHR 0x0A],
               stderr = [ERR_PERMISSION_DENIED ''net.f''],
               trace = [Opendir ''/proc/sys/'', Stat ''/proc/sys/net'', Opendir ''/proc/sys/net/'',
                        Stat ''/proc/sys/net/f'', Fopen ''/proc/sys/net/f'' ''r'',
                        Stat ''/proc/sys/net/g'', Fopen ''/proc/sys/net/g'' ''r'',
                        Stat ''/proc/sys/one'', Fopen ''/proc/sys/one'' ''r'']\<rparr>)
   \<and> map_option fst (DisplayAll 1 fs_tree ''/proc/sys/net/'' False w_init) = Some (- 1)"
  by code_simp

text \<open>
  The log only grows, a read adds its one open to it, and the loop over a listing is the
  loop over its front followed by the loop over its back.
\<close>

lemma ReadSetting_while_trace: "trace (ReadSetting_while outname fp w) = trace w"
proof (induction outname fp w rule: ReadSetting_while.induct)
  case (1 outname fp w)
  show ?case
  proof (cases "fgets 1024 fp")
    case None
    then show ?thesis
      by (subst ReadSetting_while.simps) simp
  next
    case (Some t)
    then obtain buf fp' where t: "fgets 1024 fp = Some (buf, fp')"
      by (cases t) auto
    show ?thesis
      using "1.IH" [OF t refl] t
      by (subst ReadSetting_while.simps) (simp add: Let_def)
  qed
qed

lemma ReadSetting_trace:
  "trace (snd (ReadSetting fs key w)) =
     trace w @ [Fopen (PROC_PATH @ slashdot key CHR ''.'' CHR ''/'') ''r'']"
  by (simp add: ReadSetting_def Let_def ReadSetting_while_trace split: sum.splits)

lemma DisplayAll_trace_grows:
  "DisplayAll fuel fs path b w = Some (r, w') \<Longrightarrow> \<exists>t. trace w' = trace w @ Opendir path # t"
  "DisplayAll_while fuel fs path b ds rc w = Some (r, w') \<Longrightarrow> \<exists>t. trace w' = trace w @ t"
proof (induction fuel fs path b w and fuel fs path b ds rc w arbitrary: r w' and r w'
    rule: DisplayAll_DisplayAll_while.induct)
  case (1 fs path b w)
  then show ?case by simp
next
  case (2 fuel fs path b w)
  show ?case
  proof (cases "opendir fs path")
    case None
    with "2.prems" show ?thesis by (auto simp: Let_def)
  next
    case (Some dp)
    with "2.prems" have "DisplayAll_while fuel fs path b (drop 2 dp) 0 (called (Opendir path) w) = Some (r, w')"
      by (simp add: Let_def)
    from "2.IH" [OF refl Some this] show ?thesis by auto
  qed
next
  case (3 fuel fs path b rc w)
  then show ?case by simp
next
  case (4 fuel fs path b d dp rc w)
  let ?w1 = "called (Stat (path @ d)) w"
  show ?case
  proof (cases "stat fs (path @ d)")
    case (Inl e)
    with "4.prems" have "DisplayAll_while fuel fs path b dp rc (eprintf (PERROR (path @ d) e) ?w1) = Some (r, w')"
      by (simp add: Let_def)
    from "4.IH"(1) [OF refl refl Inl this] show ?thesis by auto
  next
    case (Inr isdir)
    show ?thesis
    proof (cases isdir)
      case True
      with Inr "4.prems" obtain r2 w2 where
        d: "DisplayAll fuel fs (path @ d @ ''/'') b ?w1 = Some (r2, w2)"
        and l: "DisplayAll_while fuel fs path b dp rc w2 = Some (r, w')"
        by (auto simp: Let_def split: option.splits)
      from "4.IH"(2) [OF refl refl Inr True] d obtain t1 where "trace w2 = trace ?w1 @ Opendir ((path @ d) @ ''/'') # t1"
        by auto
      moreover from "4.IH"(3) [OF refl refl Inr True _ refl l] d obtain t2 where "trace w' = trace w2 @ t2"
        by auto
      ultimately show ?thesis by auto
    next
      case False
      obtain r2 w2 where rs: "ReadSetting fs (drop (length PROC_PATH) (path @ d)) ?w1 = (r2, w2)"
        by (cases "ReadSetting fs (drop (length PROC_PATH) (path @ d)) ?w1")
      with Inr False "4.prems" have l: "DisplayAll_while fuel fs path b dp (rc OR r2) w2 = Some (r, w')"
        by (simp add: Let_def)
      from "4.IH"(4) [OF refl refl Inr False rs [symmetric] l] obtain t2 where "trace w' = trace w2 @ t2"
        by auto
      moreover have "trace w2 = trace ?w1 @ [Fopen (PROC_PATH @ slashdot (drop (length PROC_PATH) (path @ d)) CHR ''.'' CHR ''/'') ''r'']"
        using ReadSetting_trace [of fs "drop (length PROC_PATH) (path @ d)" ?w1] rs by simp
      ultimately show ?thesis by auto
    qed
  qed
qed

lemma DisplayAll_while_append:
  "DisplayAll_while fuel fs path b (ds1 @ ds2) rc w =
     (case DisplayAll_while fuel fs path b ds1 rc w of
        None \<Rightarrow> None
      | Some (rc1, w1) \<Rightarrow> DisplayAll_while fuel fs path b ds2 rc1 w1)"
proof (induction ds1 arbitrary: rc w)
  case Nil
  show ?case by simp
next
  case (Cons d ds1)
  show ?case
    by (simp add: Cons.IH Let_def split: sum.splits option.splits prod.splits)
qed

lemma DisplayAll_while_step:
  "DisplayAll_while fuel fs path b (d # ds) rc w =
     (case stat fs (path @ d) of
        Inl e \<Rightarrow>
          DisplayAll_while fuel fs path b ds rc
            (eprintf (PERROR (path @ d) e) (called (Stat (path @ d)) w))
      | Inr isdir \<Rightarrow>
          if isdir then
            (case DisplayAll fuel fs (path @ d @ ''/'') b (called (Stat (path @ d)) w) of
               None \<Rightarrow> None
             | Some (r, w2) \<Rightarrow> DisplayAll_while fuel fs path b ds rc w2)
          else
            (case ReadSetting fs (drop (length PROC_PATH) (path @ d)) (called (Stat (path @ d)) w) of
               (r, w2) \<Rightarrow> DisplayAll_while fuel fs path b ds (rc OR r) w2))"
  by (simp add: Let_def split: sum.splits option.splits prod.splits)

lemma DisplayAll_while_queries:
  assumes "DisplayAll_while fuel fs path b ds rc w = Some (r, w')" and "d \<in> set ds"
  shows "Stat (path @ d) \<in> set (trace w')
     \<and> (stat fs (path @ d) = Inr True \<longrightarrow> Opendir (path @ d @ ''/'') \<in> set (trace w'))
     \<and> (stat fs (path @ d) = Inr False \<longrightarrow>
          Fopen (PROC_PATH @ slashdot (drop (length PROC_PATH) (path @ d)) CHR ''.'' CHR ''/'') ''r''
            \<in> set (trace w'))"
  using assms
proof (induction ds arbitrary: rc w)
  case Nil
  then show ?case by simp
next
  case (Cons d0 ds)
  let ?w1 = "called (Stat (path @ d0)) w"
  let ?fo = "Fopen (PROC_PATH @ slashdot (drop (length PROC_PATH) (path @ d0)) CHR ''.'' CHR ''/'') ''r''"
  have "\<exists>rc2 w2. DisplayAll_while fuel fs path b ds rc2 w2 = Some (r, w')
          \<and> Stat (path @ d0) \<in> set (trace w2)
          \<and> (stat fs (path @ d0) = Inr True \<longrightarrow> Opendir (path @ d0 @ ''/'') \<in> set (trace w2))
          \<and> (stat fs (path @ d0) = Inr False \<longrightarrow> ?fo \<in> set (trace w2))"
  proof (cases "stat fs (path @ d0)")
    case (Inl e)
    with Cons.prems(1) have "DisplayAll_while fuel fs path b ds rc (eprintf (PERROR (path @ d0) e) ?w1) = Some (r, w')"
      by (simp add: Let_def)
    with Inl show ?thesis
      by (intro exI [of _ rc] exI [of _ "eprintf (PERROR (path @ d0) e) ?w1"]) simp
  next
    case (Inr isdir)
    show ?thesis
    proof (cases isdir)
      case True
      with Inr Cons.prems(1) obtain r2 w2 where
        dd: "DisplayAll fuel fs (path @ d0 @ ''/'') b ?w1 = Some (r2, w2)"
        and l: "DisplayAll_while fuel fs path b ds rc w2 = Some (r, w')"
        by (auto simp: Let_def split: option.splits)
      from DisplayAll_trace_grows(1) [OF dd] obtain t where
        "trace w2 = trace ?w1 @ Opendir (path @ d0 @ ''/'') # t"
        by auto
      with l Inr True show ?thesis
        by (intro exI [of _ rc] exI [of _ w2]) simp
    next
      case False
      obtain r2 w2 where rs: "ReadSetting fs (drop (length PROC_PATH) (path @ d0)) ?w1 = (r2, w2)"
        by (cases "ReadSetting fs (drop (length PROC_PATH) (path @ d0)) ?w1")
      with Inr False Cons.prems(1) have l: "DisplayAll_while fuel fs path b ds (rc OR r2) w2 = Some (r, w')"
        by (simp add: Let_def)
      have "trace w2 = trace ?w1 @ [?fo]"
        using ReadSetting_trace [of fs "drop (length PROC_PATH) (path @ d0)" ?w1] rs by simp
      with l Inr False show ?thesis
        by (intro exI [of _ "rc OR r2"] exI [of _ w2]) simp
    qed
  qed
  then obtain rc2 w2 where l: "DisplayAll_while fuel fs path b ds rc2 w2 = Some (r, w')"
    and s: "Stat (path @ d0) \<in> set (trace w2)"
    and o: "stat fs (path @ d0) = Inr True \<longrightarrow> Opendir (path @ d0 @ ''/'') \<in> set (trace w2)"
    and f: "stat fs (path @ d0) = Inr False \<longrightarrow> ?fo \<in> set (trace w2)"
    by blast
  from DisplayAll_trace_grows(2) [OF l] obtain t where t: "trace w' = trace w2 @ t"
    by auto
  show ?case
  proof (cases "d = d0")
    case True
    with s o f t show ?thesis by simp
  next
    case False
    with Cons.prems(2) have "d \<in> set ds" by simp
    from Cons.IH [OF l this] show ?thesis .
  qed
qed

lemma DisplayAll_while_flat:
  assumes "\<forall>d\<in>set ds. stat fs (path @ d) \<noteq> Inr True"
  shows "\<exists>r w'. DisplayAll_while fuel fs path b ds rc w = Some (r, w')
           \<and> filter is_Stat (trace w') = filter is_Stat (trace w) @ map (\<lambda>d. Stat (path @ d)) ds"
  using assms
proof (induction ds arbitrary: rc w)
  case Nil
  show ?case by simp
next
  case (Cons d0 ds)
  let ?w1 = "called (Stat (path @ d0)) w"
  from Cons.prems have flat: "\<forall>d\<in>set ds. stat fs (path @ d) \<noteq> Inr True"
    and d0: "stat fs (path @ d0) \<noteq> Inr True"
    by simp_all
  have "\<exists>rc2 w2. DisplayAll_while fuel fs path b (d0 # ds) rc w = DisplayAll_while fuel fs path b ds rc2 w2
          \<and> filter is_Stat (trace w2) = filter is_Stat (trace w) @ [Stat (path @ d0)]"
  proof (cases "stat fs (path @ d0)")
    case (Inl e)
    then show ?thesis
      by (intro exI [of _ rc] exI [of _ "eprintf (PERROR (path @ d0) e) ?w1"]) (simp add: Let_def)
  next
    case (Inr isdir)
    with d0 have nd: "\<not> isdir" by simp
    obtain r2 w2 where rs: "ReadSetting fs (drop (length PROC_PATH) (path @ d0)) ?w1 = (r2, w2)"
      by (cases "ReadSetting fs (drop (length PROC_PATH) (path @ d0)) ?w1")
    have "trace w2 = trace ?w1 @ [Fopen (PROC_PATH @ slashdot (drop (length PROC_PATH) (path @ d0)) CHR ''.'' CHR ''/'') ''r'']"
      using ReadSetting_trace [of fs "drop (length PROC_PATH) (path @ d0)" ?w1] rs by simp
    with Inr nd rs show ?thesis
      by (intro exI [of _ "rc OR r2"] exI [of _ w2]) (simp add: Let_def)
  qed
  then obtain rc2 w2 where
    st: "DisplayAll_while fuel fs path b (d0 # ds) rc w = DisplayAll_while fuel fs path b ds rc2 w2"
    and tr: "filter is_Stat (trace w2) = filter is_Stat (trace w) @ [Stat (path @ d0)]"
    by blast
  from Cons.IH [OF flat, of rc2 w2] obtain r w' where
    "DisplayAll_while fuel fs path b ds rc2 w2 = Some (r, w')"
    "filter is_Stat (trace w') = filter is_Stat (trace w2) @ map (\<lambda>d. Stat (path @ d)) ds"
    by blast
  with st tr show ?case
    by (intro exI [of _ r] exI [of _ w']) simp
qed



section \<open>The command dispatcher\<close>

text \<open>
  Once switches are off, the loop of \<^verbatim>\<open>main\<close> passes every non-empty argument to
  \<^verbatim>\<open>WriteSetting\<close> in write mode, keeping the return code of the last call only, and to
  \<^verbatim>\<open>ReadSetting\<close> in read mode, keeping no return code.
\<close>

lemma main_for_write_mode:
  "\<forall>s\<in>set settings. s \<noteq> [] \<Longrightarrow>
     main_for fuel fs me settings False True rc w =
       Some (foldl (\<lambda>(rc, w) s. WriteSetting fs s w) (rc, w) settings)"
proof (induction settings arbitrary: rc w)
  case Nil
  show ?case by simp
next
  case (Cons s settings)
  obtain rc' w' where r: "WriteSetting fs s w = (rc', w')"
    by (cases "WriteSetting fs s w")
  from Cons.prems have "\<forall>s\<in>set settings. s \<noteq> []" and "s \<noteq> []"
    by simp_all
  with Cons.IH [of rc' w'] r show ?case
    by simp
qed

lemma main_for_read_mode:
  "\<forall>k\<in>set keys. k \<noteq> [] \<Longrightarrow>
     main_for fuel fs me keys False False rc w =
       Some (rc, foldl (\<lambda>w k. snd (ReadSetting fs k w)) w keys)"
proof (induction keys arbitrary: w)
  case Nil
  show ?case by simp
next
  case (Cons k keys)
  obtain rc' w' where r: "ReadSetting fs k w = (rc', w')"
    by (cases "ReadSetting fs k w")
  from Cons.prems have "\<forall>k\<in>set keys. k \<noteq> []" and "k \<noteq> []"
    by simp_all
  with Cons.IH [of w'] r show ?case
    by simp
qed

text \<open>
  C2 at a failing input. In write mode the first setting fails and the second succeeds:
  both are processed and the exit status is 0, the status of the last one. In the other
  order the status is \<open>-1\<close>.
\<close>

theorem main_returns_last_write_status:
  "main 0 fs_values [''sysctl'', ''-w'', ''bad=1'', ''one=1''] w_init =
     Some (0, \<lparr>PrintName = True, PrintNewline = True, stdout = ''one = 1'' @ [CHR 0x0A],
               stderr = [ERR_INVALID_KEY ''bad''],
               trace = [Fopen ''/proc/sys/bad'' ''w'', Fopen ''/proc/sys/one'' ''w'',
                        Fwrite ''/proc/sys/one'' (''1'' @ [CHR 0x0A])]\<rparr>)
   \<and> map_option fst (main 0 fs_values [''sysctl'', ''-w'', ''one=1'', ''bad=1''] w_init) = Some (- 1)"
  by code_simp

lemma main_for_empty_is_end:
  "main_for fuel fs me (pre @ [] # post) sa wm rc w = main_for fuel fs me pre sa wm rc w"
proof (induction pre arbitrary: sa wm rc w)
  case Nil
  show ?case by simp
next
  case (Cons arg pre)
  have p: "(case pre @ [] # post of [] \<Rightarrow> DEFAULT_PRELOAD | f # _ \<Rightarrow> if f \<noteq> [] then f else DEFAULT_PRELOAD)
         = (case pre of [] \<Rightarrow> DEFAULT_PRELOAD | f # _ \<Rightarrow> if f \<noteq> [] then f else DEFAULT_PRELOAD)"
    by (cases pre) simp_all
  show ?case
    by (simp add: Cons.IH p Let_def split: prod.splits)
qed

text \<open>
  C10. An empty argument ends the argument loop like the end of the vector: the loop
  returns the status accumulated so far and leaves the world as it is, so the run is the
  one of the vector cut before the empty argument, whatever follows it.
\<close>

theorem main_stops_at_empty_argument:
  "main_for fuel fs me ([] # post) sa wm rc w = Some (rc, w)
   \<and> main_for fuel fs me (pre @ [] # post) sa wm rc w = main_for fuel fs me pre sa wm rc w
   \<and> main fuel fs (prog # a # pre @ [] # post) w = main fuel fs (prog # a # pre) w
   \<and> main fuel fs (prog # [] # post) w = Some (0, w\<lparr>PrintName := True, PrintNewline := True\<rparr>)"
proof -
  have "main fuel fs (prog # a # pre @ [] # post) w = main fuel fs (prog # a # pre) w"
    using main_for_empty_is_end [of fuel fs _ "a # pre" post]
    by (simp add: main_def Let_def del: main_for.simps)
  moreover have "main fuel fs (prog # [] # post) w = Some (0, w\<lparr>PrintName := True, PrintNewline := True\<rparr>)"
    by (simp add: main_def)
  moreover have "main_for fuel fs me ([] # post) sa wm rc w = Some (rc, w)"
    by simp
  ultimately show ?thesis
    using main_for_empty_is_end by blast
qed

end
